(* ===== verification/Calc_Prelude.thy ===== *)
theory Calc_Prelude
  imports Complex_Main
begin

text \<open>
  Shared vocabulary of the calculator model (\<^verbatim>\<open>src/main.cpp\<close>): the outcomes of the
  pipeline as an error type, a bind on the sum type that threads them, the character
  classes the C++ code tests (\<^verbatim>\<open>std::isdigit\<close>, \<^verbatim>\<open>std::isspace\<close> in the "C" locale),
  and generic lemmas on these that the component theories share.
\<close>

named_theorems calc_simps "facts about the program's characters and operators"
named_theorems calc_eval "definitions unfolded to evaluate the model on concrete input"

section \<open>Outcomes\<close>

text \<open>
  Every way the C++ program can leave a stage early is a constructor:
  \<^item> \<open>InvalidExpression\<close>: \<^verbatim>\<open>throw std::runtime_error("Invalid expression")\<close> in
    \<^verbatim>\<open>infixToPostfix\<close>;
  \<^item> \<open>DivisionByZero\<close>: \<^verbatim>\<open>throw std::runtime_error("Division by zero")\<close> in \<^verbatim>\<open>applyOp\<close>;
  \<^item> \<open>StodOutOfRange\<close>, \<open>StodInvalid\<close>: the exceptions of \<^verbatim>\<open>std::stod\<close>;
  \<^item> \<open>EmptyStackAccess\<close>: \<^verbatim>\<open>top()\<close> or \<^verbatim>\<open>pop()\<close> of an empty \<^verbatim>\<open>std::stack\<close>, undefined
    behaviour in C++, made an observable outcome here so that theorems can say it never
    happens (or that it does).
\<close>

datatype error =
    InvalidExpression
  | DivisionByZero
  | StodOutOfRange
  | StodInvalid
  | EmptyStackAccess

type_synonym 'a result = "error + 'a"

text \<open>A token of the C++ code is a \<^verbatim>\<open>std::string\<close>.\<close>

type_synonym token = string

text \<open>\<^verbatim>\<open>token[0]\<close>; on an empty \<^verbatim>\<open>std::string\<close> it reads the terminating NUL.\<close>

definition first_char :: "token \<Rightarrow> char" where
  "first_char t = (case t of [] \<Rightarrow> CHR 0x00 | c # _ \<Rightarrow> c)"

text \<open>Tokens written one after the other, each followed by a blank, as both stages print them.\<close>

definition spaced :: "token list \<Rightarrow> string" where
  "spaced ts = concat (map (\<lambda>t. t @ [CHR '' '']) ts)"

definition ebind :: "'a result \<Rightarrow> ('a \<Rightarrow> 'b result) \<Rightarrow> 'b result" where
  "ebind r f = (case r of Inl e \<Rightarrow> Inl e | Inr x \<Rightarrow> f x)"

section \<open>Character classes\<close>

definition is_digit :: "char \<Rightarrow> bool" where
  "is_digit c \<longleftrightarrow> (48::nat) \<le> of_char c \<and> (of_char c :: nat) \<le> 57"

text \<open>\<^verbatim>\<open>std::isspace\<close> in the "C" locale: blank, and the controls 9 to 13.\<close>

definition is_space :: "char \<Rightarrow> bool" where
  "is_space c \<longleftrightarrow> of_char c = (32::nat) \<or> ((9::nat) \<le> of_char c \<and> (of_char c :: nat) \<le> 13)"

text \<open>A character that \<^verbatim>\<open>tokenize\<close> accumulates into a number lexeme.\<close>

definition numchar :: "char \<Rightarrow> bool" where
  "numchar c \<longleftrightarrow> is_digit c \<or> c = CHR ''.''"

definition digit_val :: "char \<Rightarrow> nat" where
  "digit_val c = of_char c - 48"

declare first_char_def [calc_eval] spaced_def [calc_eval]
  is_digit_def [calc_eval] is_space_def [calc_eval] numchar_def [calc_eval]
  digit_val_def [calc_eval]

section \<open>Lemmas\<close>

lemma ebind_Inl [simp]: "ebind (Inl e) f = Inl e"
  by (simp add: ebind_def)

lemma ebind_Inr [simp]: "ebind (Inr x) f = f x"
  by (simp add: ebind_def)

lemma ebind_Inr_right [simp]: "ebind r Inr = r"
  by (cases r) simp_all

lemma ebind_eq_Inr: "ebind r f = Inr y \<longleftrightarrow> (\<exists>x. r = Inr x \<and> f x = Inr y)"
  by (cases r) simp_all

lemma ebind_eq_Inl: "ebind r f = Inl e \<longleftrightarrow> r = Inl e \<or> (\<exists>x. r = Inr x \<and> f x = Inl e)"
  by (cases r) simp_all

lemma first_char_Cons [simp]: "first_char (c # r) = c"
  by (simp add: first_char_def)

lemma spaced_simps [simp]:
  "spaced [] = []" "spaced (t # ts) = t @ CHR '' '' # spaced ts" "spaced (xs @ ys) = spaced xs @ spaced ys"
  by (simp_all add: spaced_def)

lemma takeWhile_True [simp]: "takeWhile (\<lambda>_. True) xs = xs"
  by (induction xs) simp_all

lemma dropWhile_True [simp]: "dropWhile (\<lambda>_. True) xs = []"
  by (induction xs) simp_all

lemma ebind_assoc: "ebind (ebind r f) g = ebind r (\<lambda>x. ebind (f x) g)"
  by (cases r) simp_all

text \<open>The characters the program treats specially are no digits, no blanks.\<close>

lemma special_not_digit [calc_simps]:
  "\<not> is_digit CHR ''(''" "\<not> is_digit CHR '')''" "\<not> is_digit CHR ''+''"
  "\<not> is_digit CHR ''-''" "\<not> is_digit CHR ''*''" "\<not> is_digit CHR ''/''"
  "\<not> is_digit CHR ''^''" "\<not> is_digit CHR ''.''" "\<not> is_digit CHR ''e''"
  "\<not> is_digit CHR ''E''" "\<not> is_digit CHR '' ''"
  by (simp_all add: is_digit_def)

lemma special_not_space [calc_simps]:
  "\<not> is_space CHR ''(''" "\<not> is_space CHR '')''" "\<not> is_space CHR ''+''"
  "\<not> is_space CHR ''-''" "\<not> is_space CHR ''*''" "\<not> is_space CHR ''/''"
  "\<not> is_space CHR ''^''" "\<not> is_space CHR ''.''"
  by (simp_all add: is_space_def)

lemma digit_not_space: "is_digit c \<Longrightarrow> \<not> is_space c"
  by (auto simp: is_digit_def is_space_def)

lemma numchar_not_space: "numchar c \<Longrightarrow> \<not> is_space c"
  using digit_not_space [of c] by (auto simp: numchar_def calc_simps)

lemma numchar_special [calc_simps]:
  "\<not> numchar CHR ''(''" "\<not> numchar CHR '')''" "\<not> numchar CHR ''+''"
  "\<not> numchar CHR ''-''" "\<not> numchar CHR ''*''" "\<not> numchar CHR ''/''"
  "\<not> numchar CHR ''^''" "\<not> numchar CHR '' ''" "numchar CHR ''.''"
  by (simp_all add: numchar_def is_digit_def)


lemma dropWhile_twice_shorter:
  "x \<in> set s \<Longrightarrow> \<not> Q x \<Longrightarrow> length (dropWhile (\<lambda>c. \<not> Q c) (dropWhile Q s)) < length s"
proof -
  assume "x \<in> set s" "\<not> Q x"
  then have ne: "dropWhile Q s \<noteq> []" by (auto simp: dropWhile_eq_Nil_conv)
  then obtain c cs where c: "dropWhile Q s = c # cs" by (cases "dropWhile Q s") auto
  from hd_dropWhile [OF ne] c have "\<not> Q c" by simp
  with c have "length (dropWhile (\<lambda>c. \<not> Q c) (dropWhile Q s)) \<le> length cs"
    by (simp add: length_dropWhile_le)
  moreover have "length (dropWhile Q s) \<le> length s" by (rule length_dropWhile_le)
  ultimately show ?thesis using c by simp
qed

end
