(* ===== verification/Calc_Tokenizer.thy ===== *)
theory Calc_Tokenizer
  imports Calc_Prelude
begin

text \<open>
  The tokenizer, \<^verbatim>\<open>tokenize\<close> (\<^verbatim>\<open>src/main.cpp\<close> lines 44--72). Its loop state (the
  output vector \<^verbatim>\<open>tokens\<close>, the pending lexeme \<^verbatim>\<open>num\<close> and the flag
  \<^verbatim>\<open>lastCharWasOperator\<close>) is the record \<open>tok_state\<close>; one iteration of the
  \<^verbatim>\<open>for\<close> loop is \<open>tokenize_char\<close>, the loop is a left fold over the input, and the
  final flush is \<open>flush_num\<close>. The lemmas show that no character is lost or reordered
  (the tokens concatenate to the input), what shape every token has, and that a token
  list whose neighbours cannot merge is tokenized back to itself.
\<close>

record tok_state =
  tokens :: "token list"
  num :: string
  lastCharWasOperator :: bool

definition tokenize_init :: tok_state where
  "tokenize_init = \<lparr>tokens = [], num = [], lastCharWasOperator = True\<rparr>"

text \<open>\<^verbatim>\<open>if (!num.empty()) { tokens.push_back(num); num.clear(); }\<close>\<close>

definition flush_num :: "tok_state \<Rightarrow> tok_state" where
  "flush_num st = (if num st \<noteq> [] then st\<lparr>tokens := tokens st @ [num st], num := []\<rparr> else st)"

definition tokenize_char :: "tok_state \<Rightarrow> char \<Rightarrow> tok_state" where
  "tokenize_char st ch =
     (if is_digit ch \<or> ch = CHR ''.''
      then st\<lparr>num := num st @ [ch], lastCharWasOperator := False\<rparr>
      else
        let st' = flush_num st in
        if ch = CHR ''-'' \<and> lastCharWasOperator st' then st'\<lparr>num := num st' @ [ch]\<rparr>
        else st'\<lparr>tokens := tokens st' @ [[ch]], lastCharWasOperator := (ch \<noteq> CHR '')'')\<rparr>)"

definition tokenize :: "string \<Rightarrow> token list" where
  "tokenize expression = tokens (flush_num (foldl tokenize_char tokenize_init expression))"

declare tokenize_init_def [calc_eval] flush_num_def [calc_eval] tokenize_char_def [calc_eval]
  tokenize_def [calc_eval]

section \<open>Token shapes\<close>

text \<open>
  A number lexeme: characters the loop accumulates (digits and points), after at most one
  leading minus that a unary-minus position started.
\<close>

definition lexeme :: "token \<Rightarrow> bool" where
  "lexeme t \<longleftrightarrow> (case t of
      [] \<Rightarrow> False
    | c # r \<Rightarrow> if c = CHR ''-'' then r \<noteq> [] \<and> list_all numchar r else list_all numchar t)"

declare lexeme_def [calc_eval]

definition tok_shape :: "token \<Rightarrow> bool" where
  "tok_shape t \<longleftrightarrow> lexeme t \<or> (\<exists>c. t = [c] \<and> \<not> numchar c)"

text \<open>The pending lexeme is empty, a lone minus, or a minus-prefixed run of number characters.\<close>

definition num_ok :: "string \<Rightarrow> bool" where
  "num_ok n \<longleftrightarrow> n = [] \<or> n = [CHR ''-''] \<or> lexeme n"

definition tok_inv :: "tok_state \<Rightarrow> bool" where
  "tok_inv st \<longleftrightarrow> list_all tok_shape (tokens st) \<and> num_ok (num st)"

text \<open>
  \<open>sep_ok f pl ts\<close>: the tokens \<open>ts\<close>, written one after the other, are split back into
  exactly \<open>ts\<close>, when the tokenizer starts with \<^verbatim>\<open>lastCharWasOperator = f\<close> and
  \<open>pl\<close> says that a lexeme is still pending. Two lexemes never meet; a lexeme with a
  leading minus stands where the tokenizer reads a unary minus; an operator minus does not.
  \<open>sep_after\<close> is the pair \<open>(f, pl)\<close> after the tokens.
\<close>

fun sep_ok :: "bool \<Rightarrow> bool \<Rightarrow> token list \<Rightarrow> bool" where
  "sep_ok f pl [] = True"
| "sep_ok f pl (t # ts) =
     (if lexeme t then \<not> pl \<and> (hd t = CHR ''-'' \<longrightarrow> f) \<and> sep_ok False True ts
      else (case t of
              [c] \<Rightarrow> \<not> numchar c \<and> (c = CHR ''-'' \<longrightarrow> \<not> f) \<and> sep_ok (c \<noteq> CHR '')'') False ts
            | _ \<Rightarrow> False))"

fun sep_after :: "bool \<Rightarrow> bool \<Rightarrow> token list \<Rightarrow> bool \<times> bool" where
  "sep_after f pl [] = (f, pl)"
| "sep_after f pl (t # ts) =
     (if lexeme t then sep_after False True ts else sep_after (t \<noteq> [CHR '')'']) False ts)"

text \<open>How the tokenizer state stands to the tokens read so far (\<open>out\<close>).\<close>

definition tok_rel :: "tok_state \<Rightarrow> bool \<Rightarrow> bool \<Rightarrow> token list \<Rightarrow> bool" where
  "tok_rel st f pl out \<longleftrightarrow>
     lastCharWasOperator st = f \<and>
     (if pl then num st \<noteq> [] \<and> tokens st @ [num st] = out else num st = [] \<and> tokens st = out)"

section \<open>No character is lost\<close>

lemma flush_num_concat: "concat (tokens (flush_num st)) @ num (flush_num st) = concat (tokens st) @ num st"
  by (simp add: flush_num_def)

lemma tokenize_char_concat:
  "concat (tokens (tokenize_char st c)) @ num (tokenize_char st c) = concat (tokens st) @ num st @ [c]"
  by (auto simp: tokenize_char_def Let_def flush_num_def)

lemma foldl_tokenize_concat:
  "concat (tokens (foldl tokenize_char st cs)) @ num (foldl tokenize_char st cs)
   = concat (tokens st) @ num st @ cs"
  by (induction cs arbitrary: st) (simp_all add: tokenize_char_concat)

text \<open>C18: the tokens, concatenated, are the input: nothing is dropped, added or reordered.\<close>

theorem tokenize_concat: "concat (tokenize e) = e"
proof -
  have "concat (tokenize e) = concat (tokens (flush_num (foldl tokenize_char tokenize_init e)))
                              @ num (flush_num (foldl tokenize_char tokenize_init e))"
    by (simp add: tokenize_def flush_num_def)
  also have "\<dots> = e"
    by (simp add: flush_num_concat foldl_tokenize_concat tokenize_init_def)
  finally show ?thesis .
qed

section \<open>Every token has a shape\<close>

lemma num_ok_snoc:
  "num_ok n \<Longrightarrow> numchar c \<Longrightarrow> lexeme (n @ [c])"
  by (cases n) (auto simp: num_ok_def lexeme_def list_all_iff calc_simps split: if_splits)

lemma num_ok_shape: "num_ok n \<Longrightarrow> n \<noteq> [] \<Longrightarrow> tok_shape n"
  unfolding num_ok_def tok_shape_def using numchar_special(4) by blast

lemma flush_num_inv: "tok_inv st \<Longrightarrow> tok_inv (flush_num st) \<and> num (flush_num st) = []"
proof -
  assume inv: "tok_inv st"
  then have "num st \<noteq> [] \<Longrightarrow> tok_shape (num st)"
    by (simp add: tok_inv_def num_ok_shape)
  with inv show ?thesis
    by (simp add: tok_inv_def flush_num_def num_ok_def)
qed

lemma tokenize_char_inv: "tok_inv st \<Longrightarrow> tok_inv (tokenize_char st c)"
proof -
  assume inv: "tok_inv st"
  show ?thesis
  proof (cases "numchar c")
    case True
    have "lexeme (num st @ [c])"
      using inv True by (intro num_ok_snoc) (simp_all add: tok_inv_def)
    moreover have "tokenize_char st c = st\<lparr>num := num st @ [c], lastCharWasOperator := False\<rparr>"
      using True by (simp add: tokenize_char_def numchar_def)
    ultimately show ?thesis
      using inv by (simp add: tok_inv_def num_ok_def)
  next
    case False
    from inv have fl: "tok_inv (flush_num st)" "num (flush_num st) = []"
      by (simp_all add: flush_num_inv)
    with False show ?thesis
      by (auto simp: tokenize_char_def Let_def tok_inv_def num_ok_def tok_shape_def numchar_def)
  qed
qed

lemma foldl_tokenize_inv: "tok_inv st \<Longrightarrow> tok_inv (foldl tokenize_char st cs)"
  by (induction cs arbitrary: st) (simp_all add: tokenize_char_inv)

lemma tokenize_inv: "tok_inv (flush_num (foldl tokenize_char tokenize_init e))"
proof -
  have "tok_inv tokenize_init"
    by (simp add: tok_inv_def tokenize_init_def num_ok_def)
  then show ?thesis
    by (simp add: foldl_tokenize_inv flush_num_inv)
qed

text \<open>
  C19: every token is a number lexeme (digits and points, after an optional unary minus)
  or a single character that is neither a digit nor a point.
\<close>

theorem tokenize_shape: "t \<in> set (tokenize e) \<Longrightarrow> tok_shape t"
  using tokenize_inv [of e] by (simp add: tokenize_def tok_inv_def list_all_iff)

lemma lexeme_no_space: "lexeme t \<Longrightarrow> t \<noteq> [] \<and> list_all (\<lambda>c. \<not> is_space c) t"
  by (cases t) (auto simp: lexeme_def list_all_iff calc_simps numchar_not_space split: if_splits)

lemma tok_shape_nonempty: "tok_shape t \<Longrightarrow> t \<noteq> []"
  by (auto simp: tok_shape_def lexeme_def)

section \<open>Token lists that tokenize back to themselves\<close>

lemma sep_ok_append:
  "sep_ok f pl (xs @ ys) \<longleftrightarrow>
   sep_ok f pl xs \<and> sep_ok (fst (sep_after f pl xs)) (snd (sep_after f pl xs)) ys"
  by (induction xs arbitrary: f pl) (auto split: list.splits)

lemma sep_after_append:
  "sep_after f pl (xs @ ys) = sep_after (fst (sep_after f pl xs)) (snd (sep_after f pl xs)) ys"
  by (induction xs arbitrary: f pl) auto

lemma foldl_numchars:
  "list_all numchar ds \<Longrightarrow> ds \<noteq> [] \<Longrightarrow>
   foldl tokenize_char st ds = st\<lparr>num := num st @ ds, lastCharWasOperator := False\<rparr>"
proof (induction ds arbitrary: st)
  case Nil
  then show ?case by simp
next
  case (Cons d ds)
  have step: "tokenize_char st d = st\<lparr>num := num st @ [d], lastCharWasOperator := False\<rparr>"
    using Cons.prems by (simp add: tokenize_char_def numchar_def)
  show ?case
  proof (cases "ds = []")
    case True
    with step show ?thesis by simp
  next
    case False
    with Cons.IH [of "tokenize_char st d"] Cons.prems step show ?thesis by simp
  qed
qed

lemma tok_rel_lexeme:
  assumes rel: "tok_rel st f False out" and lx: "lexeme t" and neg: "hd t = CHR ''-'' \<longrightarrow> f"
  shows "tok_rel (foldl tokenize_char st t) False True (out @ [t])"
proof (cases t)
  case Nil
  with lx show ?thesis by (simp add: lexeme_def)
next
  case (Cons c r)
  show ?thesis
  proof (cases "c = CHR ''-''")
    case True
    with lx Cons have r: "list_all numchar r" "r \<noteq> []" by (simp_all add: lexeme_def)
    from rel True Cons neg have "tokenize_char st c = st\<lparr>num := [c]\<rparr>"
      by (simp add: tok_rel_def tokenize_char_def flush_num_def calc_simps)
    with r rel Cons show ?thesis
      by (simp add: foldl_numchars tok_rel_def)
  next
    case False
    with lx Cons have "list_all numchar t" by (simp add: lexeme_def)
    with rel Cons show ?thesis
      by (simp add: foldl_numchars tok_rel_def del: foldl_Cons)
  qed
qed

lemma tok_rel_single:
  assumes rel: "tok_rel st f pl out" and nc: "\<not> numchar c" and neg: "c = CHR ''-'' \<longrightarrow> \<not> f"
  shows "tok_rel (tokenize_char st c) (c \<noteq> CHR '')'') False (out @ [[c]])"
proof -
  have fl: "tokens (flush_num st) = (if pl then out else out)" "num (flush_num st) = []"
    "lastCharWasOperator (flush_num st) = f"
    using rel by (auto simp: tok_rel_def flush_num_def split: if_splits)
  with nc neg show ?thesis
    by (auto simp: tokenize_char_def tok_rel_def numchar_def Let_def)
qed

lemma tok_rel_sep:
  "tok_rel st f pl out \<Longrightarrow> sep_ok f pl ts \<Longrightarrow>
   tok_rel (foldl tokenize_char st (concat ts)) (fst (sep_after f pl ts)) (snd (sep_after f pl ts)) (out @ ts)"
proof (induction ts arbitrary: st f pl out)
  case Nil
  then show ?case by simp
next
  case (Cons t ts)
  show ?case
  proof (cases "lexeme t")
    case True
    with Cons.prems have "tok_rel (foldl tokenize_char st t) False True (out @ [t])"
      by (intro tok_rel_lexeme) auto
    moreover from Cons.prems(2) True have "sep_ok False True ts" by simp
    ultimately have "tok_rel (foldl tokenize_char (foldl tokenize_char st t) (concat ts))
        (fst (sep_after False True ts)) (snd (sep_after False True ts)) ((out @ [t]) @ ts)"
      by (rule Cons.IH)
    with True show ?thesis by simp
  next
    case False
    with Cons.prems obtain c where t: "t = [c]" and nc: "\<not> numchar c"
      and neg: "c = CHR ''-'' \<longrightarrow> \<not> f" and rest: "sep_ok (c \<noteq> CHR '')'') False ts"
      by (auto split: list.splits)
    from Cons.prems(1) nc neg have "tok_rel (tokenize_char st c) (c \<noteq> CHR '')'') False (out @ [[c]])"
      by (rule tok_rel_single)
    then have "tok_rel (foldl tokenize_char (tokenize_char st c) (concat ts))
        (fst (sep_after (c \<noteq> CHR '')'') False ts)) (snd (sep_after (c \<noteq> CHR '')'') False ts))
        ((out @ [[c]]) @ ts)"
      using rest by (rule Cons.IH)
    with t False show ?thesis by simp
  qed
qed

text \<open>
  A token list whose neighbours cannot merge (\<open>sep_ok True False\<close>) is what
  \<^verbatim>\<open>tokenize\<close> makes of its concatenation; with \<open>tokenize_concat\<close> the two directions of the round trip.
\<close>

lemma tokenize_sep_ok: "sep_ok True False ts \<Longrightarrow> tokenize (concat ts) = ts"
proof -
  assume ok: "sep_ok True False ts"
  have "tok_rel tokenize_init True False []"
    by (simp add: tok_rel_def tokenize_init_def)
  from tok_rel_sep [OF this ok]
  have "tok_rel (foldl tokenize_char tokenize_init (concat ts))
          (fst (sep_after True False ts)) (snd (sep_after True False ts)) ts"
    by simp
  then show ?thesis
    by (auto simp: tokenize_def tok_rel_def flush_num_def split: if_splits)
qed

section \<open>Witnesses\<close>

theorem tokenize_shape_witness: "''-5'' \<in> set (tokenize ''-5+3'') \<and> tok_shape ''-5''"
  using tokenize_shape [of "''-5''" "''-5+3''"] by (simp add: calc_eval)

end
