(* ===== verification/Calc_Number.thy ===== *)
theory Calc_Number
  imports Calc_Prelude
begin

text \<open>
  Number recognition, \<^verbatim>\<open>isNumber\<close> (\<^verbatim>\<open>src/main.cpp\<close> lines 37--41):
  \<^verbatim>\<open>std::istringstream iss(s); double d; return (iss >> d) && iss.eof();\<close>
  The extraction \<^verbatim>\<open>iss >> d\<close> skips blanks, then scans as the C++ library's
  \<^verbatim>\<open>num_get\<close> does: an optional sign, digits with at most one decimal point, and, once a
  digit has been seen, an exponent \<^verbatim>\<open>e\<close>/\<^verbatim>\<open>E\<close> with an optional sign; the scanned
  characters are converted by \<^verbatim>\<open>strtod\<close>, which must consume all of them, and a
  value that rounds to infinity sets \<^verbatim>\<open>failbit\<close>. \<^verbatim>\<open>eof()\<close> holds when the scan
  reached the end of the string. \<open>num_get_double\<close> returns the value and the
  unscanned rest, \<open>None\<close> on \<^verbatim>\<open>failbit\<close>.
  \<^verbatim>\<open>std::stod\<close> (called on line 163 only for strings \<^verbatim>\<open>isNumber\<close> accepts) reads the
  same characters and throws \<^verbatim>\<open>out_of_range\<close> on overflow and on an inexact result
  below the smallest normal double.
\<close>

section \<open>Scanning\<close>

definition scan_sign :: "string \<Rightarrow> string \<times> string" where
  "scan_sign s = (case s of
      c # r \<Rightarrow> if c = CHR ''+'' \<or> c = CHR ''-'' then ([c], r) else ([], s)
    | [] \<Rightarrow> ([], []))"

text \<open>
  The scan loop; the flags are: a mantissa digit seen, a decimal point seen, an exponent
  seen. The result is the accumulated characters and the unscanned rest.
\<close>

fun scan_float :: "bool \<Rightarrow> bool \<Rightarrow> bool \<Rightarrow> string \<Rightarrow> string \<times> string" where
  "scan_float fm fd fs [] = ([], [])"
| "scan_float fm fd fs (c # cs) =
     (if is_digit c then apfst (Cons c) (scan_float True fd fs cs)
      else if c = CHR ''.'' \<and> \<not> fd \<and> \<not> fs then apfst (Cons c) (scan_float fm True fs cs)
      else if (c = CHR ''e'' \<or> c = CHR ''E'') \<and> \<not> fs \<and> fm then
        (case cs of
           [] \<Rightarrow> ([CHR ''e''], [])
         | s # cs' \<Rightarrow>
             if s = CHR ''+'' \<or> s = CHR ''-''
             then apfst (\<lambda>a. CHR ''e'' # s # a) (scan_float fm fd True cs')
             else apfst (Cons CHR ''e'') (scan_float fm fd True cs))
      else ([], c # cs))"

definition scan_double :: "string \<Rightarrow> string \<times> string" where
  "scan_double s =
     (let (sg, s2) = scan_sign (dropWhile is_space s);
          (acc, rest) = scan_float False False False s2
      in (sg @ acc, rest))"

section \<open>Conversion of the scanned characters (strtod)\<close>

definition digits_val :: "string \<Rightarrow> nat" where
  "digits_val ds = foldl (\<lambda>n c. 10 * n + digit_val c) 0 ds"

definition split_frac :: "string \<Rightarrow> string \<times> string" where
  "split_frac s = (case s of
      c # r \<Rightarrow> if c = CHR ''.'' then (takeWhile is_digit r, dropWhile is_digit r) else ([], s)
    | [] \<Rightarrow> ([], []))"

definition exponent :: "string \<Rightarrow> int option" where
  "exponent s = (case s of
      [] \<Rightarrow> Some 0
    | c # r \<Rightarrow>
        if c = CHR ''e'' then
          (let (sg, ds) = scan_sign r
           in if ds \<noteq> [] \<and> list_all is_digit ds
              then Some ((if sg = [CHR ''-''] then -1 else 1) * int (digits_val ds))
              else None)
        else None)"

definition decimal_value :: "bool \<Rightarrow> string \<Rightarrow> string \<Rightarrow> int \<Rightarrow> real" where
  "decimal_value neg ip fp ex =
     (if neg then -1 else 1) * (real (digits_val (ip @ fp)) / 10 ^ length fp) * 10 powi ex"

text \<open>\<open>Some v\<close> when \<^verbatim>\<open>strtod\<close> consumes the whole accumulated string, with value \<open>v\<close>.\<close>

definition strtod_acc :: "string \<Rightarrow> real option" where
  "strtod_acc a =
     (let (sg, a1) = scan_sign a;
          ip = takeWhile is_digit a1;
          (fp, a3) = split_frac (dropWhile is_digit a1)
      in if ip = [] \<and> fp = [] then None
         else map_option (decimal_value (sg = [CHR ''-'']) ip fp) (exponent a3))"

text \<open>
  A decimal value rounds to infinity in IEEE double precision (round to nearest, ties to
  even) exactly when its magnitude reaches \<open>2^1024 - 2^970\<close>, half an ulp above the
  largest finite double.
\<close>

definition dbl_overflow :: "real \<Rightarrow> bool" where
  "dbl_overflow v \<longleftrightarrow> 2 ^ 1024 - 2 ^ 970 \<le> \<bar>v\<bar>"

definition stod_underflow :: "real \<Rightarrow> bool" where
  "stod_underflow v \<longleftrightarrow>
     v \<noteq> 0 \<and> \<bar>v\<bar> < 2 powi (-1022) \<and> v * 2 ^ 1074 \<noteq> of_int \<lfloor>v * 2 ^ 1074\<rfloor>"

section \<open>The operations\<close>

definition num_get_double :: "string \<Rightarrow> (real \<times> string) option" where
  "num_get_double s =
     (let (acc, rest) = scan_double s
      in case strtod_acc acc of
           None \<Rightarrow> None
         | Some v \<Rightarrow> if dbl_overflow v then None else Some (v, rest))"

definition isNumber :: "string \<Rightarrow> bool" where
  "isNumber s = (case num_get_double s of None \<Rightarrow> False | Some (_, rest) \<Rightarrow> rest = [])"

section \<open>std::stod\<close>

text \<open>
  \<^verbatim>\<open>std::stod(s)\<close> calls \<^verbatim>\<open>strtod\<close> on the whole string, which skips blanks, reads
  an optional sign and then the longest prefix that is a decimal number
  (\<open>digits [. digits] [e|E [sign] digits]\<close>, a digit on one side of the point) or a
  hexadecimal one (\<open>0x hexdigits [. hexdigits] [p|P [sign] digits]\<close>); the rest of the
  string is left unread. No conversion throws \<^verbatim>\<open>invalid_argument\<close>, a result out of the
  range of \<^verbatim>\<open>double\<close> (\<^verbatim>\<open>ERANGE\<close>) throws \<^verbatim>\<open>out_of_range\<close>. The forms \<open>inf\<close>,
  \<open>infinity\<close> and \<open>nan\<close> denote no real number and are not modelled: they are read as no
  conversion.
\<close>

text \<open>An exponent part: the letter, an optional sign and at least one digit, else nothing is read.\<close>

definition strtod_exp :: "(char \<Rightarrow> bool) \<Rightarrow> string \<Rightarrow> int \<times> string" where
  "strtod_exp is_e s = (case s of
      c # r \<Rightarrow>
        if is_e c then
          (let (sg, r2) = scan_sign r; ds = takeWhile is_digit r2
           in if ds = [] then (0, s)
              else ((if sg = [CHR ''-''] then -1 else 1) * int (digits_val ds), dropWhile is_digit r2))
        else (0, s)
    | [] \<Rightarrow> (0, []))"

definition strtod_dec :: "bool \<Rightarrow> string \<Rightarrow> (real \<times> string) option" where
  "strtod_dec neg s =
     (let ip = takeWhile is_digit s; (fp, r1) = split_frac (dropWhile is_digit s)
      in if ip = [] \<and> fp = [] then None
         else (let (ex, r2) = strtod_exp (\<lambda>c. c = CHR ''e'' \<or> c = CHR ''E'') r1
               in Some (decimal_value neg ip fp ex, r2)))"

definition is_xdigit :: "char \<Rightarrow> bool" where
  "is_xdigit c \<longleftrightarrow> is_digit c \<or> (97 \<le> (of_char c :: nat) \<and> (of_char c :: nat) \<le> 102) \<or>
     (65 \<le> (of_char c :: nat) \<and> (of_char c :: nat) \<le> 70)"

definition xdigit_val :: "char \<Rightarrow> nat" where
  "xdigit_val c = (if is_digit c then digit_val c
     else if 97 \<le> (of_char c :: nat) then of_char c - 87 else of_char c - 55)"

definition xdigits_val :: "string \<Rightarrow> nat" where
  "xdigits_val ds = foldl (\<lambda>n c. 16 * n + xdigit_val c) 0 ds"

definition strtod_hex :: "bool \<Rightarrow> string \<Rightarrow> (real \<times> string) option" where
  "strtod_hex neg s =
     (let ip = takeWhile is_xdigit s; r0 = dropWhile is_xdigit s;
          (fp, r1) = (case r0 of
                        c # r \<Rightarrow> if c = CHR ''.'' then (takeWhile is_xdigit r, dropWhile is_xdigit r) else ([], r0)
                      | [] \<Rightarrow> ([], []))
      in if ip = [] \<and> fp = [] then None
         else (let (ex, r2) = strtod_exp (\<lambda>c. c = CHR ''p'' \<or> c = CHR ''P'') r1
               in Some ((if neg then -1 else 1) * (real (xdigits_val (ip @ fp)) / 16 ^ length fp) * 2 powi ex, r2)))"

text \<open>\<^verbatim>\<open>strtod\<close>: the value and the unread rest, \<open>None\<close> when no conversion is performed.\<close>

definition strtod :: "string \<Rightarrow> (real \<times> string) option" where
  "strtod s =
     (let (sg, s2) = scan_sign (dropWhile is_space s); neg = (sg = [CHR ''-''])
      in case s2 of
           z # x # r \<Rightarrow>
             if z = CHR ''0'' \<and> (x = CHR ''x'' \<or> x = CHR ''X'')
             then (case strtod_hex neg r of Some vr \<Rightarrow> Some vr | None \<Rightarrow> strtod_dec neg s2)
             else strtod_dec neg s2
         | _ \<Rightarrow> strtod_dec neg s2)"

definition stod :: "string \<Rightarrow> real result" where
  "stod s =
     (case strtod s of
        None \<Rightarrow> Inl StodInvalid
      | Some (v, _) \<Rightarrow> if dbl_overflow v \<or> stod_underflow v then Inl StodOutOfRange else Inr v)"

declare scan_sign_def [calc_eval] scan_double_def [calc_eval] digits_val_def [calc_eval]
  split_frac_def [calc_eval] exponent_def [calc_eval] decimal_value_def [calc_eval]
  strtod_acc_def [calc_eval] dbl_overflow_def [calc_eval] stod_underflow_def [calc_eval]
  num_get_double_def [calc_eval] isNumber_def [calc_eval] strtod_exp_def [calc_eval]
  strtod_dec_def [calc_eval] is_xdigit_def [calc_eval] xdigit_val_def [calc_eval]
  xdigits_val_def [calc_eval] strtod_hex_def [calc_eval] strtod_def [calc_eval] stod_def [calc_eval]

text \<open>
  The decimal numeral of a natural number, the text a user types for it: the input side of
  the round trip through \<^verbatim>\<open>isNumber\<close> and \<^verbatim>\<open>std::stod\<close>.
\<close>

definition digit_char :: "nat \<Rightarrow> char" where
  "digit_char d = char_of (48 + d)"

fun nat_str :: "nat \<Rightarrow> string" where
  "nat_str n = (if n < 10 then [digit_char n] else nat_str (n div 10) @ [digit_char (n mod 10)])"

declare nat_str.simps [simp del] digit_char_def [calc_eval]

section \<open>Properties\<close>

lemma scan_float_digits:
  "list_all is_digit ds \<Longrightarrow>
   scan_float fm fd fs (ds @ r) = apfst ((@) ds) (scan_float (fm \<or> ds \<noteq> []) fd fs r)"
  by (induction ds arbitrary: fm) (auto simp: apfst_def map_prod_def split: prod.splits)

lemma scan_float_nondigit_start:
  "\<not> is_digit c \<Longrightarrow> c \<noteq> CHR ''.'' \<Longrightarrow> \<not> fm \<Longrightarrow> scan_float fm fd fs (c # r) = ([], c # r)"
  by simp

lemma num_get_double_None:
  "strtod_acc (fst (scan_double s)) = None \<Longrightarrow> num_get_double s = None"
  by (cases "scan_double s") (simp add: num_get_double_def)

lemma strtod_acc_empty [simp]: "strtod_acc [] = None"
  by (simp add: strtod_acc_def scan_sign_def split_frac_def)

text \<open>
  A single character that is not a digit is never a number: blanks, signs, the
  decimal point, parentheses and operator characters all fail the extraction.
\<close>

lemma single_nondigit_not_number: "\<not> is_digit c \<Longrightarrow> \<not> isNumber [c]"
proof -
  assume nd: "\<not> is_digit c"
  have "fst (scan_double [c]) \<in> {[], [c], [CHR ''.'']}"
    using nd by (auto simp: scan_double_def scan_sign_def split: prod.splits)
  moreover have "strtod_acc [c] = None" if "\<not> is_digit c" for c
    using that by (simp add: strtod_acc_def scan_sign_def split_frac_def)
  ultimately have "strtod_acc (fst (scan_double [c])) = None"
    using nd by (auto simp: calc_simps)
  then show ?thesis
    by (simp add: isNumber_def num_get_double_None)
qed

lemma scan_sign_unsigned: "(\<forall>c r. s = c # r \<longrightarrow> c \<noteq> CHR ''+'' \<and> c \<noteq> CHR ''-'') \<Longrightarrow> scan_sign s = ([], s)"
  by (cases s) (auto simp: scan_sign_def)

lemma digits_split:
  assumes "list_all is_digit ds" "\<not> is_digit c"
  shows "takeWhile is_digit (ds @ c # r) = ds" "dropWhile is_digit (ds @ c # r) = c # r"
  using assms by (simp_all add: takeWhile_append2 dropWhile_append2 list_all_iff)

lemma digits_all:
  assumes "list_all is_digit ds"
  shows "takeWhile is_digit ds = ds" "dropWhile is_digit ds = []"
  using assms by (simp_all add: list_all_iff)

lemma dropWhile_space_numchar:
  "(\<forall>c r. s = c # r \<longrightarrow> c = CHR ''-'' \<or> numchar c) \<Longrightarrow> dropWhile is_space s = s"
  by (cases s) (auto simp: calc_simps dest: numchar_not_space)

lemma scan_sign_signed:
  assumes sgn: "sg = [] \<or> sg = [CHR ''-'']"
    and hd: "\<forall>c r. body = c # r \<longrightarrow> c \<noteq> CHR ''+'' \<and> c \<noteq> CHR ''-''"
  shows "scan_sign (sg @ body) = (sg, body)"
  using sgn
proof
  assume "sg = []"
  with hd show ?thesis by (simp add: scan_sign_unsigned)
next
  assume "sg = [CHR ''-'']"
  then show ?thesis by (simp add: scan_sign_def)
qed

lemma lexeme_head_unsigned:
  "list_all is_digit ip \<Longrightarrow> (\<forall>c r. rest = c # r \<longrightarrow> c \<noteq> CHR ''+'' \<and> c \<noteq> CHR ''-'') \<Longrightarrow>
   \<forall>c r. ip @ rest = c # r \<longrightarrow> c \<noteq> CHR ''+'' \<and> c \<noteq> CHR ''-''"
  by (cases ip) (auto simp: calc_simps is_digit_def)

lemma dropWhile_space_lexeme:
  "sg = [] \<or> sg = [CHR ''-''] \<Longrightarrow> list_all is_digit ip \<Longrightarrow>
   (\<forall>c r. rest = c # r \<longrightarrow> numchar c) \<Longrightarrow> dropWhile is_space (sg @ ip @ rest) = sg @ ip @ rest"
  by (rule dropWhile_space_numchar) (cases ip; auto simp: list_all_iff numchar_def)

text \<open>The scan of a decimal lexeme \<open>[-]ip.fp\<close> or \<open>[-]ip\<close> accumulates all of it.\<close>

lemma scan_double_point:
  assumes sgn: "sg = [] \<or> sg = [CHR ''-'']"
    and ip: "list_all is_digit ip" and fp: "list_all is_digit fp"
  shows "scan_double (sg @ ip @ CHR ''.'' # fp) = (sg @ ip @ CHR ''.'' # fp, [])"
proof -
  have sc: "scan_float False False False (ip @ CHR ''.'' # fp) = (ip @ CHR ''.'' # fp, [])"
    using scan_float_digits [OF ip] scan_float_digits [OF fp, of _ True False "[]"]
    by (simp add: calc_simps)
  have hd: "\<forall>c r. ip @ CHR ''.'' # fp = c # r \<longrightarrow> c \<noteq> CHR ''+'' \<and> c \<noteq> CHR ''-''"
    using ip by (rule lexeme_head_unsigned) simp
  have "dropWhile is_space (sg @ ip @ CHR ''.'' # fp) = sg @ ip @ CHR ''.'' # fp"
    using sgn ip by (rule dropWhile_space_lexeme) (simp add: calc_simps)
  then show ?thesis
    using sc scan_sign_signed [OF sgn hd] by (simp add: scan_double_def)
qed

lemma scan_double_digits:
  assumes sgn: "sg = [] \<or> sg = [CHR ''-'']" and ip: "list_all is_digit ip"
  shows "scan_double (sg @ ip) = (sg @ ip, [])"
proof -
  have sc: "scan_float False False False ip = (ip, [])"
    using scan_float_digits [OF ip, of False False False "[]"] by simp
  have hd: "\<forall>c r. ip = c # r \<longrightarrow> c \<noteq> CHR ''+'' \<and> c \<noteq> CHR ''-''"
    using lexeme_head_unsigned [OF ip, of "[]"] by simp
  have "dropWhile is_space (sg @ ip) = sg @ ip"
    using dropWhile_space_lexeme [OF sgn ip, of "[]"] by simp
  then show ?thesis
    using sc scan_sign_signed [OF sgn hd] by (simp add: scan_double_def)
qed

lemma strtod_acc_point:
  assumes sgn: "sg = [] \<or> sg = [CHR ''-'']"
    and ip: "list_all is_digit ip" and fp: "list_all is_digit fp" and ne: "ip @ fp \<noteq> []"
  shows "strtod_acc (sg @ ip @ CHR ''.'' # fp) = Some (decimal_value (sg = [CHR ''-'']) ip fp 0)"
proof -
  have hd: "\<forall>c r. ip @ CHR ''.'' # fp = c # r \<longrightarrow> c \<noteq> CHR ''+'' \<and> c \<noteq> CHR ''-''"
    using ip by (rule lexeme_head_unsigned) simp
  have "split_frac (dropWhile is_digit (ip @ CHR ''.'' # fp)) = (fp, [])"
    using digits_split [OF ip, of "CHR ''.''" fp] digits_all [OF fp]
    by (simp add: split_frac_def calc_simps)
  then show ?thesis
    using ne scan_sign_signed [OF sgn hd] digits_split [OF ip, of "CHR ''.''" fp]
    by (simp add: strtod_acc_def exponent_def calc_simps)
qed

lemma strtod_acc_digits:
  assumes sgn: "sg = [] \<or> sg = [CHR ''-'']" and ip: "list_all is_digit ip" and ne: "ip \<noteq> []"
  shows "strtod_acc (sg @ ip) = Some (decimal_value (sg = [CHR ''-'']) ip [] 0)"
proof -
  have hd: "\<forall>c r. ip = c # r \<longrightarrow> c \<noteq> CHR ''+'' \<and> c \<noteq> CHR ''-''"
    using lexeme_head_unsigned [OF ip, of "[]"] by simp
  then show ?thesis
    using ne scan_sign_signed [OF sgn hd]
    by (simp add: strtod_acc_def exponent_def split_frac_def digits_all [OF ip])
qed

text \<open>
  C25: a decimal lexeme \<open>[-]ip.fp\<close> with at least one digit is a number exactly when its
  value does not overflow, and \<^verbatim>\<open>operator>>\<close> then reads its decimal value.
\<close>

theorem num_get_double_point:
  assumes "sg = [] \<or> sg = [CHR ''-'']"
    and "list_all is_digit ip" "list_all is_digit fp" "ip @ fp \<noteq> []"
  shows "num_get_double (sg @ ip @ CHR ''.'' # fp) =
         (let v = decimal_value (sg = [CHR ''-'']) ip fp 0
          in if dbl_overflow v then None else Some (v, []))"
  using assms by (simp add: num_get_double_def scan_double_point strtod_acc_point)

lemma num_get_double_digits:
  assumes "sg = [] \<or> sg = [CHR ''-'']" "list_all is_digit ip" "ip \<noteq> []"
  shows "num_get_double (sg @ ip) =
         (let v = decimal_value (sg = [CHR ''-'']) ip [] 0
          in if dbl_overflow v then None else Some (v, []))"
  using assms by (simp add: num_get_double_def scan_double_digits strtod_acc_digits)

section \<open>The extraction and strtod read the same number\<close>

text \<open>The extraction copies what it scans, except that an exponent letter is stored as \<open>e\<close>.\<close>

definition fold_e :: "char \<Rightarrow> char" where
  "fold_e c = (if c = CHR ''E'' then CHR ''e'' else c)"

lemma fold_e_simps [simp]:
  "is_digit (fold_e c) = is_digit c" "fold_e c = CHR ''.'' \<longleftrightarrow> c = CHR ''.''"
  "fold_e c = CHR ''+'' \<longleftrightarrow> c = CHR ''+''" "fold_e c = CHR ''-'' \<longleftrightarrow> c = CHR ''-''"
  "(fold_e c = CHR ''e'' \<or> fold_e c = CHR ''E'') \<longleftrightarrow> (c = CHR ''e'' \<or> c = CHR ''E'')"
  by (auto simp: fold_e_def is_digit_def)

lemma fold_e_digit: "is_digit c \<Longrightarrow> fold_e c = c"
  by (auto simp: fold_e_def is_digit_def)

lemma scan_float_copy: "scan_float fm fd fs x = (acc, []) \<Longrightarrow> acc = map fold_e x"
proof (induction fm fd fs x arbitrary: acc rule: scan_float.induct)
  case (1 fm fd fs)
  then show ?case by simp
next
  case (2 fm fd fs c cs)
  show ?case
  proof (cases "is_digit c")
    case True
    with "2.prems" obtain a where "scan_float True fd fs cs = (a, [])" "acc = c # a"
      by (cases "scan_float True fd fs cs") auto
    with "2.IH"(1) True show ?thesis by (simp add: fold_e_digit)
  next
    case nd: False
    show ?thesis
    proof (cases "c = CHR ''.'' \<and> \<not> fd \<and> \<not> fs")
      case True
      with nd "2.prems" obtain a where "scan_float fm True fs cs = (a, [])" "acc = c # a"
        by (cases "scan_float fm True fs cs") auto
      with "2.IH"(2) nd True show ?thesis by (simp add: fold_e_def)
    next
      case np: False
      show ?thesis
      proof (cases "(c = CHR ''e'' \<or> c = CHR ''E'') \<and> \<not> fs \<and> fm")
        case e: True
        show ?thesis
        proof (cases cs)
          case Nil
          with nd np e "2.prems" show ?thesis by (auto simp: fold_e_def)
        next
          case (Cons s cs')
          show ?thesis
          proof (cases "s = CHR ''+'' \<or> s = CHR ''-''")
            case True
            have "scan_float fm fd fs (c # cs) = apfst (\<lambda>a. CHR ''e'' # s # a) (scan_float fm fd True cs')"
              using nd e True Cons by (subst scan_float.simps(2)) (auto simp del: scan_float.simps(2))
            with "2.prems" obtain a where "scan_float fm fd True cs' = (a, [])" "acc = CHR ''e'' # s # a"
              by (cases "scan_float fm fd True cs'") simp
            with "2.IH"(3) [OF nd np e Cons True] e True Cons show ?thesis by (auto simp: fold_e_def)
          next
            case False
            have "scan_float fm fd fs (c # cs) = apfst (Cons CHR ''e'') (scan_float fm fd True cs)"
              using nd e False Cons by (subst scan_float.simps(2)) (auto simp del: scan_float.simps(2))
            with "2.prems" obtain a where "scan_float fm fd True cs = (a, [])" "acc = CHR ''e'' # a"
              by (cases "scan_float fm fd True cs") simp
            with "2.IH"(4) [OF nd np e Cons False] e show ?thesis by (auto simp: fold_e_def)
          qed
        qed
      next
        case False
        with nd np "2.prems" show ?thesis by (auto split: if_splits)
      qed
    qed
  qed
qed

lemma takeWhile_digit_fold: "takeWhile is_digit (map fold_e x) = takeWhile is_digit x"
  by (induction x) (auto simp: fold_e_digit)

lemma dropWhile_digit_fold: "dropWhile is_digit (map fold_e x) = map fold_e (dropWhile is_digit x)"
  by (induction x) auto

lemma split_frac_fold: "split_frac (map fold_e y) = apsnd (map fold_e) (split_frac y)"
  by (cases y) (auto simp: split_frac_def takeWhile_digit_fold dropWhile_digit_fold)

lemma scan_sign_fold: "scan_sign (map fold_e r) = apsnd (map fold_e) (scan_sign r)"
  by (cases r) (auto simp: scan_sign_def)

lemma strtod_exp_fold:
  "strtod_exp (\<lambda>c. c = CHR ''e'' \<or> c = CHR ''E'') (map fold_e r) =
   apsnd (map fold_e) (strtod_exp (\<lambda>c. c = CHR ''e'' \<or> c = CHR ''E'') r)"
proof (cases r)
  case (Cons c r')
  obtain sg r2 where "scan_sign r' = (sg, r2)" by fastforce
  with Cons show ?thesis
    using scan_sign_fold [of r'] by (auto simp: strtod_exp_def Let_def takeWhile_digit_fold dropWhile_digit_fold)
qed (simp add: strtod_exp_def)

lemma strtod_dec_fold: "strtod_dec neg (map fold_e x) = map_option (apsnd (map fold_e)) (strtod_dec neg x)"
proof -
  obtain fp r1 where f: "split_frac (dropWhile is_digit x) = (fp, r1)" by fastforce
  obtain ex r2 where e: "strtod_exp (\<lambda>c. c = CHR ''e'' \<or> c = CHR ''E'') r1 = (ex, r2)" by fastforce
  show ?thesis
    using f e split_frac_fold [of "dropWhile is_digit x"] strtod_exp_fold [of r1]
    by (simp add: strtod_dec_def Let_def takeWhile_digit_fold dropWhile_digit_fold)
qed

text \<open>The extraction stops at the \<open>x\<close> of a hexadecimal prefix.\<close>

lemma scan_float_hex_prefix:
  "scan_float False False False (CHR ''0'' # CHR ''x'' # r) = (''0'', CHR ''x'' # r)"
  "scan_float False False False (CHR ''0'' # CHR ''X'' # r) = (''0'', CHR ''X'' # r)"
  by (simp_all add: is_digit_def)

text \<open>What \<^verbatim>\<open>strtod\<close> accepts whole, read as a prefix, is read whole.\<close>

lemma strtod_acc_dec:
  assumes a: "strtod_acc a = Some v" and sg: "scan_sign a = (sg, a1)"
  shows "strtod_dec (sg = [CHR ''-'']) a1 = Some (v, [])"
proof -
  obtain fp a3 where f: "split_frac (dropWhile is_digit a1) = (fp, a3)" by fastforce
  from a sg f obtain ex where ne: "\<not> (takeWhile is_digit a1 = [] \<and> fp = [])" and ex: "exponent a3 = Some ex"
    and v: "v = decimal_value (sg = [CHR ''-'']) (takeWhile is_digit a1) fp ex"
    by (auto simp: strtod_acc_def Let_def split: if_splits)
  have "strtod_exp (\<lambda>c. c = CHR ''e'' \<or> c = CHR ''E'') a3 = (ex, [])"
  proof (cases a3)
    case Nil
    with ex show ?thesis by (simp add: exponent_def strtod_exp_def)
  next
    case (Cons c r)
    obtain sg2 ds where "scan_sign r = (sg2, ds)" by fastforce
    with ex Cons show ?thesis
      by (auto simp: exponent_def strtod_exp_def Let_def list_all_iff takeWhile_eq_all_conv [THEN iffD2]
          dropWhile_eq_Nil_conv [THEN iffD2] split: if_splits)
  qed
  with f ne v show ?thesis by (simp add: strtod_dec_def Let_def)
qed

lemma scan_sign_after:
  assumes "scan_sign s = (sg, x)"
  shows "scan_sign (sg @ map fold_e x) = (sg, map fold_e x)"
proof (cases s)
  case Nil
  with assms show ?thesis by (simp add: scan_sign_def)
next
  case (Cons c r)
  with assms show ?thesis
    by (cases x) (auto simp: scan_sign_def split: if_splits)
qed

text \<open>
  On the strings \<^verbatim>\<open>isNumber\<close> accepts, the extraction's scan followed by \<^verbatim>\<open>strtod\<close> of
  the scanned text and \<^verbatim>\<open>strtod\<close>'s own longest-prefix parse of the string agree, and
  both read the string to its end.
\<close>

lemma isNumber_strtod:
  assumes n: "isNumber s"
  shows "\<exists>v. num_get_double s = Some (v, []) \<and> strtod s = Some (v, []) \<and> \<not> dbl_overflow v"
proof -
  obtain sg x where sg: "scan_sign (dropWhile is_space s) = (sg, x)" by fastforce
  obtain acc rest where sc: "scan_float False False False x = (acc, rest)" by fastforce
  have sd: "scan_double s = (sg @ acc, rest)" using sg sc by (simp add: scan_double_def)
  from n sd obtain v where r: "rest = []" and v: "strtod_acc (sg @ acc) = Some v" and nov: "\<not> dbl_overflow v"
    by (auto simp: isNumber_def num_get_double_def split: option.splits if_splits)
  have acc: "acc = map fold_e x" using sc r by (simp add: scan_float_copy)
  have "strtod_dec (sg = [CHR ''-'']) (map fold_e x) = Some (v, [])"
    using strtod_acc_dec [OF v [unfolded acc] scan_sign_after [OF sg]] .
  then have dec: "strtod_dec (sg = [CHR ''-'']) x = Some (v, [])"
    by (auto simp: strtod_dec_fold)
  have "\<not> (\<exists>r. x = CHR ''0'' # CHR ''x'' # r \<or> x = CHR ''0'' # CHR ''X'' # r)"
    using sc r scan_float_hex_prefix by auto
  then have "strtod s = strtod_dec (sg = [CHR ''-'']) x"
    using sg by (auto simp: strtod_def Let_def split: list.splits)
  with dec sd r v nov show ?thesis
    by (simp add: num_get_double_def)
qed

text \<open>
  C27: wherever \<^verbatim>\<open>isNumber\<close> accepts a string, \<^verbatim>\<open>std::stod\<close>, which parses it anew with
  \<^verbatim>\<open>strtod\<close>, reads the whole string and the value the extraction read; it fails only by
  \<^verbatim>\<open>out_of_range\<close>, on an inexact subnormal value.
\<close>

theorem isNumber_stod:
  "isNumber s \<Longrightarrow>
   \<exists>v. num_get_double s = Some (v, []) \<and> strtod s = Some (v, []) \<and>
       stod s = (if stod_underflow v then Inl StodOutOfRange else Inr v)"
  using isNumber_strtod [of s] by (auto simp: stod_def split: if_splits)

lemma isNumber_stod_cases:
  "isNumber s \<Longrightarrow> stod s \<noteq> Inl StodInvalid \<and> stod s \<noteq> Inl EmptyStackAccess
     \<and> stod s \<noteq> Inl DivisionByZero \<and> stod s \<noteq> Inl InvalidExpression"
  using isNumber_strtod [of s] by (auto simp: stod_def split: if_splits)

section \<open>Reading a numeral back\<close>

lemma digit_char_ok: "d < 10 \<Longrightarrow> is_digit (digit_char d) \<and> digit_val (digit_char d) = d"
  by (simp add: digit_char_def is_digit_def digit_val_def of_char_of)

lemma digits_val_snoc: "digits_val (xs @ [c]) = 10 * digits_val xs + digit_val c"
  by (simp add: digits_val_def)

lemma nat_str_ok: "nat_str n \<noteq> [] \<and> list_all is_digit (nat_str n) \<and> digits_val (nat_str n) = n"
proof (induction n rule: nat_str.induct)
  case (1 n)
  show ?case
  proof (cases "n < 10")
    case True
    with digit_char_ok [of n] show ?thesis
      by (simp add: nat_str.simps [of n] digits_val_def)
  next
    case False
    with "1.IH" have ih: "nat_str (n div 10) \<noteq> [] \<and> list_all is_digit (nat_str (n div 10)) \<and>
        digits_val (nat_str (n div 10)) = n div 10"
      by blast
    from digit_char_ok [of "n mod 10"] have "is_digit (digit_char (n mod 10))"
      "digit_val (digit_char (n mod 10)) = n mod 10" by simp_all
    with False ih show ?thesis
      by (simp add: nat_str.simps [of n] digits_val_snoc)
  qed
qed

lemma decimal_value_nat: "decimal_value False ip [] 0 = real (digits_val ip)"
  by (simp add: decimal_value_def)

lemma nat_not_underflow: "\<not> stod_underflow (real n)"
proof -
  have "real n * 2 ^ 1074 = real (n * 2 ^ 1074)" by simp
  then show ?thesis
    by (simp add: stod_underflow_def del: of_nat_mult of_nat_power)
qed

text \<open>A run of digits below the overflow bound is a number, and \<^verbatim>\<open>std::stod\<close> reads its value.\<close>

lemma stod_digits:
  assumes ok: "list_all is_digit ds" "ds \<noteq> []" and lt: "real (digits_val ds) < 2 ^ 1024 - 2 ^ 970"
  shows "isNumber ds \<and> stod ds = Inr (real (digits_val ds))"
proof -
  have nov: "\<not> dbl_overflow (real (digits_val ds))"
    using lt by (simp add: dbl_overflow_def)
  have ng: "num_get_double ds = Some (real (digits_val ds), [])"
    using num_get_double_digits [of "[]" ds] ok nov by (simp add: decimal_value_nat)
  then have n: "isNumber ds" by (simp add: isNumber_def)
  with isNumber_strtod [OF n] ng have "strtod ds = Some (real (digits_val ds), [])" by auto
  with n nov nat_not_underflow [of "digits_val ds"] show ?thesis
    by (simp add: stod_def)
qed

text \<open>
  C26: the decimal numeral of every natural number below the overflow bound is a number,
  and \<^verbatim>\<open>std::stod\<close> reads it back as that natural number.
\<close>

theorem stod_nat_str:
  "real n < 2 ^ 1024 - 2 ^ 970 \<Longrightarrow> isNumber (nat_str n) \<and> stod (nat_str n) = Inr (real n)"
  using stod_digits [of "nat_str n"] nat_str_ok [of n] by simp

section \<open>Witnesses\<close>

theorem stod_nat_str_witness:
  "real (1234::nat) < 2 ^ 1024 - 2 ^ 970 \<and> nat_str 1234 = ''1234'' \<and> isNumber ''1234'' \<and> stod ''1234'' = Inr 1234"
  using stod_nat_str [of 1234] by (simp add: nat_str.simps calc_eval char_of_def bit_0)

theorem num_get_double_point_witness:
  "list_all is_digit ''12'' \<and> list_all is_digit ''5'' \<and> num_get_double ''-12.5'' = Some (-25/2, [])"
  using num_get_double_point [of "''-''" "''12''" "''5''"] by (simp add: calc_eval)

theorem isNumber_stod_witness:
  "isNumber ''1.25E1'' \<and> num_get_double ''1.25E1'' = Some (25/2, []) \<and>
   strtod ''1.25E1'' = Some (25/2, []) \<and> stod ''1.25E1'' = Inr (25/2)"
  using isNumber_stod [of "''1.25E1''"] by (simp add: calc_eval)

end
