(* ===== verification/Calc_Validator.thy ===== *)
theory Calc_Validator
  imports Calc_Number
begin

text \<open>
  The validator, \<^verbatim>\<open>validateExpression\<close> (\<^verbatim>\<open>src/main.cpp\<close> lines 75--112). The loop
  variables \<^verbatim>\<open>openBrackets\<close>, \<^verbatim>\<open>lastTokenWasOperator\<close> and
  \<^verbatim>\<open>lastTokenWasOpeningBracket\<close> are the record \<open>vstate\<close>; one iteration is
  \<open>validate_token\<close>, whose \<open>None\<close> is an early \<^verbatim>\<open>return false\<close>; the loop is
  \<open>validate_loop\<close>. The C++ \<^verbatim>\<open>int\<close> counter is an unbounded \<open>int\<close>: the bound lemma
  shows it never exceeds the number of tokens, so it fits in 32 bits for inputs shorter
  than \<open>2^31\<close> tokens. The lemmas show the invariant of the flags, that the validator
  refines the two-variable machine of the specification (depth and "an operand is
  expected"), and the bound.
\<close>

record vstate =
  openBrackets :: int
  lastTokenWasOperator :: bool
  lastTokenWasOpeningBracket :: bool

definition validate_init :: vstate where
  "validate_init = \<lparr>openBrackets = 0, lastTokenWasOperator = True, lastTokenWasOpeningBracket = False\<rparr>"

definition validate_token :: "vstate \<Rightarrow> token \<Rightarrow> vstate option" where
  "validate_token st token =
     (if token = ''('' then
        Some (st\<lparr>openBrackets := openBrackets st + 1, lastTokenWasOperator := True,
                 lastTokenWasOpeningBracket := True\<rparr>)
      else if token = '')'' then
        (let st' = st\<lparr>openBrackets := openBrackets st - 1\<rparr> in
         if openBrackets st' < 0 \<or> lastTokenWasOperator st' then None
         else Some (st'\<lparr>lastTokenWasOperator := False, lastTokenWasOpeningBracket := False\<rparr>))
      else if isNumber token then
        (if \<not> lastTokenWasOperator st \<and> \<not> lastTokenWasOpeningBracket st then None
         else Some (st\<lparr>lastTokenWasOperator := False, lastTokenWasOpeningBracket := False\<rparr>))
      else if lastTokenWasOperator st then None
      else Some (st\<lparr>lastTokenWasOperator := True, lastTokenWasOpeningBracket := False\<rparr>))"

fun validate_loop :: "vstate \<Rightarrow> token list \<Rightarrow> vstate option" where
  "validate_loop st [] = Some st"
| "validate_loop st (t # ts) =
     (case validate_token st t of None \<Rightarrow> None | Some st' \<Rightarrow> validate_loop st' ts)"

definition validateExpression :: "token list \<Rightarrow> bool" where
  "validateExpression tokens =
     (case validate_loop validate_init tokens of
        None \<Rightarrow> False
      | Some st \<Rightarrow> \<not> (openBrackets st \<noteq> 0 \<or> lastTokenWasOperator st))"

declare validate_init_def [calc_eval] validate_token_def [calc_eval]
  validateExpression_def [calc_eval]

text \<open>
  The depth never goes negative, and an opening bracket always counts as an operator:
  \<^verbatim>\<open>lastTokenWasOpeningBracket\<close> implies \<^verbatim>\<open>lastTokenWasOperator\<close>.
\<close>

definition vinv :: "vstate \<Rightarrow> bool" where
  "vinv st \<longleftrightarrow> 0 \<le> openBrackets st \<and> (lastTokenWasOpeningBracket st \<longrightarrow> lastTokenWasOperator st)"

text \<open>
  The validator as a state machine: the states reachable from \<open>validate_init\<close> by steps
  that do not return \<^verbatim>\<open>false\<close>.
\<close>

inductive vreach :: "vstate \<Rightarrow> bool" where
  init: "vreach validate_init"
| step: "vreach st \<Longrightarrow> validate_token st t = Some st' \<Longrightarrow> vreach st'"

text \<open>
  The specification's validator (section 4.2) is a machine over the depth and the flag
  "an operand is expected". \<open>vspec_step\<close> is that machine, with \<open>None\<close> for rejection.
\<close>

definition vspec_step :: "int \<times> bool \<Rightarrow> token \<Rightarrow> (int \<times> bool) option" where
  "vspec_step s t = (case s of (d, expect) \<Rightarrow>
     if t = ''('' then Some (d + 1, True)
     else if t = '')'' then (if d - 1 < 0 \<or> expect then None else Some (d - 1, False))
     else if isNumber t then (if expect then Some (d, False) else None)
     else if expect then None else Some (d, True))"

fun vspec_loop :: "int \<times> bool \<Rightarrow> token list \<Rightarrow> (int \<times> bool) option" where
  "vspec_loop s [] = Some s"
| "vspec_loop s (t # ts) = (case vspec_step s t of None \<Rightarrow> None | Some s' \<Rightarrow> vspec_loop s' ts)"

definition vspec_valid :: "token list \<Rightarrow> bool" where
  "vspec_valid ts = (case vspec_loop (0, True) ts of None \<Rightarrow> False | Some (d, expect) \<Rightarrow> d = 0 \<and> \<not> expect)"

definition vabs :: "vstate \<Rightarrow> int \<times> bool" where
  "vabs st = (openBrackets st, lastTokenWasOperator st)"

text \<open>The bracket balance of a token list: opening minus closing brackets.\<close>

definition bal :: "token list \<Rightarrow> int" where
  "bal ts = int (count_list ts ''('') - int (count_list ts '')'')"

lemma validate_loop_append:
  "validate_loop st (xs @ ys) = (case validate_loop st xs of None \<Rightarrow> None | Some st' \<Rightarrow> validate_loop st' ys)"
  by (induction xs arbitrary: st) (simp_all split: option.splits)

section \<open>The invariant\<close>

lemma validate_token_inv: "vinv st \<Longrightarrow> validate_token st t = Some st' \<Longrightarrow> vinv st'"
  by (auto simp: vinv_def validate_token_def Let_def split: if_splits)

lemma validate_loop_inv: "vinv st \<Longrightarrow> validate_loop st ts = Some st' \<Longrightarrow> vinv st'"
  by (induction ts arbitrary: st) (auto split: option.splits dest: validate_token_inv)

lemma vinv_init: "vinv validate_init"
  by (simp add: vinv_def validate_init_def)

section \<open>The reachable states\<close>

lemma vreach_loop: "vreach st \<Longrightarrow> validate_loop st ts = Some st' \<Longrightarrow> vreach st'"
  by (induction ts arbitrary: st) (auto split: option.splits intro: vreach.step)

lemma vreach_run: "vreach st \<Longrightarrow> \<exists>ts. validate_loop validate_init ts = Some st"
proof (induction rule: vreach.induct)
  case init
  have "validate_loop validate_init [] = Some validate_init" by simp
  then show ?case by blast
next
  case (step st t st')
  then obtain ts where "validate_loop validate_init ts = Some st" by blast
  with step.hyps(2) have "validate_loop validate_init (ts @ [t]) = Some st'"
    by (simp add: validate_loop_append)
  then show ?case by blast
qed

lemma vreach_good:
  "vreach st \<Longrightarrow> 0 \<le> openBrackets st \<and>
     (lastTokenWasOpeningBracket st \<longrightarrow> lastTokenWasOperator st \<and> 1 \<le> openBrackets st)"
  by (induction rule: vreach.induct)
    (auto simp: validate_init_def validate_token_def Let_def split: if_splits)

text \<open>Runs of opening brackets, and the two tokens that bring the other states about.\<close>

lemma validate_opens:
  "validate_loop st (replicate n ''('') =
   Some (if n = 0 then st
         else st\<lparr>openBrackets := openBrackets st + int n, lastTokenWasOperator := True,
                  lastTokenWasOpeningBracket := True\<rparr>)"
  by (induction n arbitrary: st) (simp_all add: validate_token_def)

lemma validate_opens_init:
  "validate_loop validate_init (replicate n ''('') =
   Some \<lparr>openBrackets = int n, lastTokenWasOperator = True, lastTokenWasOpeningBracket = (0 < n)\<rparr>"
  by (simp add: validate_opens validate_init_def)

lemma number_one: "isNumber ''1''" and plus_not_number: "\<not> isNumber ''+''"
  by (simp_all add: calc_eval)

text \<open>
  C13: exactly these states are reachable: the depth is non-negative, and the state just
  after an opening bracket expects an operand and has depth at least one. Every other
  combination of the three variables is reached by some token list.
\<close>

theorem validate_reachable_iff:
  "(\<exists>ts. validate_loop validate_init ts = Some st) \<longleftrightarrow>
   0 \<le> openBrackets st \<and>
   (lastTokenWasOpeningBracket st \<longrightarrow> lastTokenWasOperator st \<and> 1 \<le> openBrackets st)"
proof
  assume "\<exists>ts. validate_loop validate_init ts = Some st"
  then obtain ts where "validate_loop validate_init ts = Some st" by blast
  from vreach_loop [OF vreach.init this] show "0 \<le> openBrackets st \<and>
    (lastTokenWasOpeningBracket st \<longrightarrow> lastTokenWasOperator st \<and> 1 \<le> openBrackets st)"
    by (rule vreach_good)
next
  assume g: "0 \<le> openBrackets st \<and>
    (lastTokenWasOpeningBracket st \<longrightarrow> lastTokenWasOperator st \<and> 1 \<le> openBrackets st)"
  obtain n where n: "openBrackets st = int n"
    using g nonneg_int_cases by blast
  obtain b c where st: "st = \<lparr>openBrackets = int n, lastTokenWasOperator = b, lastTokenWasOpeningBracket = c\<rparr>"
    using n by (cases st) simp
  let ?R = "replicate n ''(''"
  consider (lb) "c" | (num) "\<not> c" "\<not> b" | (op) "\<not> c" "b"
    by blast
  then show "\<exists>ts. validate_loop validate_init ts = Some st"
  proof cases
    case lb
    with g st have "b" "0 < n" by simp_all
    with lb st have "validate_loop validate_init ?R = Some st"
      by (simp add: validate_opens_init)
    then show ?thesis by blast
  next
    case num
    with st have "validate_loop validate_init (?R @ [''1'']) = Some st"
      by (simp add: validate_loop_append validate_opens_init validate_token_def number_one)
    then show ?thesis by blast
  next
    case op
    with st have "validate_loop validate_init (?R @ [''1'', ''+'']) = Some st"
      by (simp add: validate_loop_append validate_opens_init validate_token_def number_one plus_not_number)
    then show ?thesis by blast
  qed
qed

section \<open>Refinement of the specification's machine\<close>

lemma validate_token_refines:
  "vinv st \<Longrightarrow> map_option vabs (validate_token st t) = vspec_step (vabs st) t"
  by (auto simp: vinv_def validate_token_def vspec_step_def vabs_def Let_def)

lemma validate_loop_refines:
  "vinv st \<Longrightarrow> map_option vabs (validate_loop st ts) = vspec_loop (vabs st) ts"
proof (induction ts arbitrary: st)
  case Nil
  then show ?case by simp
next
  case (Cons t ts)
  from Cons.prems have step: "map_option vabs (validate_token st t) = vspec_step (vabs st) t"
    by (rule validate_token_refines)
  show ?case
  proof (cases "validate_token st t")
    case None
    with step show ?thesis by simp
  next
    case (Some st')
    with Cons.prems have "vinv st'" by (rule validate_token_inv)
    moreover from step Some have "vspec_step (vabs st) t = Some (vabs st')" by simp
    ultimately show ?thesis using Cons.IH [of st'] Some by simp
  qed
qed

text \<open>
  C6: \<^verbatim>\<open>validateExpression\<close> accepts exactly what the specification's machine
  accepts; the flag \<^verbatim>\<open>lastTokenWasOpeningBracket\<close> never changes the verdict.
\<close>

theorem validateExpression_refines: "validateExpression ts = vspec_valid ts"
proof -
  have "map_option vabs (validate_loop validate_init ts) = vspec_loop (0, True) ts"
    using validate_loop_refines [OF vinv_init] by (simp add: vabs_def validate_init_def)
  then show ?thesis
    by (auto simp: validateExpression_def vspec_valid_def vabs_def split: option.splits)
qed

section \<open>Bound on the bracket counter\<close>

lemma validate_token_depth:
  "validate_token st t = Some st' \<Longrightarrow> openBrackets st' \<le> openBrackets st + 1"
  by (auto simp: validate_token_def Let_def split: if_splits)

text \<open>
  C20: starting from zero, the bracket counter stays between 0 and the number of tokens
  read, so the C++ \<^verbatim>\<open>int\<close> cannot overflow on an input of fewer than \<open>2^31\<close> tokens.
\<close>

theorem validate_depth_bound:
  "validate_loop validate_init ts = Some st \<Longrightarrow> 0 \<le> openBrackets st \<and> openBrackets st \<le> int (length ts)"
proof -
  have gen: "validate_loop s ts = Some st \<Longrightarrow> openBrackets st \<le> openBrackets s + int (length ts)" for s
  proof (induction ts arbitrary: s)
    case Nil
    then show ?case by simp
  next
    case (Cons t ts)
    then obtain s' where s': "validate_token s t = Some s'" and rest: "validate_loop s' ts = Some st"
      by (auto split: option.splits)
    from Cons.IH [OF rest] validate_token_depth [OF s'] show ?case by simp
  qed
  assume run: "validate_loop validate_init ts = Some st"
  with gen [OF run] validate_loop_inv [OF vinv_init run] show ?thesis
    by (simp add: validate_init_def vinv_def)
qed

section \<open>Unbalanced brackets are rejected\<close>

lemma bal_Cons: "bal (t # ts) = bal [t] + bal ts"
  by (simp add: bal_def)

lemma validate_token_bal: "validate_token st t = Some st' \<Longrightarrow> openBrackets st' = openBrackets st + bal [t]"
  by (auto simp: validate_token_def Let_def bal_def split: if_splits)

lemma validate_loop_bal: "validate_loop st ts = Some st' \<Longrightarrow> openBrackets st' = openBrackets st + bal ts"
proof (induction ts arbitrary: st)
  case Nil
  then show ?case by (simp add: bal_def)
next
  case (Cons t ts)
  then obtain s1 where s1: "validate_token st t = Some s1" and rest: "validate_loop s1 ts = Some st'"
    by (auto split: option.splits)
  from Cons.IH [OF rest] validate_token_bal [OF s1] show ?case
    by (simp add: bal_Cons [of t ts])
qed

text \<open>C15: a token list with more opening than closing brackets, or fewer, is rejected.\<close>

theorem validate_unbalanced:
  "count_list ts ''('' \<noteq> count_list ts '')'' \<Longrightarrow> \<not> validateExpression ts"
proof
  assume ne: "count_list ts ''('' \<noteq> count_list ts '')''" and v: "validateExpression ts"
  from v obtain st where "validate_loop validate_init ts = Some st" and "openBrackets st = 0"
    by (auto simp: validateExpression_def split: option.splits)
  with validate_loop_bal have "bal ts = 0"
    by (fastforce simp: validate_init_def)
  with ne show False
    by (simp add: bal_def)
qed

text \<open>
  C16: a token list with a prefix that closes more brackets than it opens is rejected: a
  \<open>)\<close> before its matching \<open>(\<close> is caught however the rest of the list balances.
\<close>

theorem validate_close_first:
  "count_list (take n ts) ''('' < count_list (take n ts) '')'' \<Longrightarrow> \<not> validateExpression ts"
proof
  assume lt: "count_list (take n ts) ''('' < count_list (take n ts) '')''" and v: "validateExpression ts"
  from v obtain st where run: "validate_loop validate_init (take n ts @ drop n ts) = Some st"
    by (auto simp: validateExpression_def split: option.splits)
  then have "(case validate_loop validate_init (take n ts) of None \<Rightarrow> None
          | Some st' \<Rightarrow> validate_loop st' (drop n ts)) = Some st"
    by (simp only: validate_loop_append)
  then obtain s1 where s1: "validate_loop validate_init (take n ts) = Some s1"
    by (cases "validate_loop validate_init (take n ts)") auto
  from validate_loop_inv [OF vinv_init s1] have "0 \<le> openBrackets s1"
    by (simp add: vinv_def)
  with validate_loop_bal [OF s1] lt show False
    by (simp add: bal_def validate_init_def)
qed

section \<open>Witnesses\<close>

theorem validate_unbalanced_witness:
  "count_list [''('', ''3'', ''+'', ''4''] ''('' \<noteq> count_list [''('', ''3'', ''+'', ''4''] '')'' \<and>
   \<not> validateExpression [''('', ''3'', ''+'', ''4'']"
  using validate_unbalanced [of "[''('', ''3'', ''+'', ''4'']"] by simp

theorem validate_close_first_witness:
  "count_list (take 2 [''3'', '')'', ''+'', ''('', ''4'']) ''('' <
     count_list (take 2 [''3'', '')'', ''+'', ''('', ''4'']) '')'' \<and>
   \<not> validateExpression [''3'', '')'', ''+'', ''('', ''4'']"
  using validate_close_first [of 2 "[''3'', '')'', ''+'', ''('', ''4'']"] by simp

theorem validate_reachable_iff_witness:
  "(\<exists>ts. validate_loop validate_init ts =
      Some \<lparr>openBrackets = 2, lastTokenWasOperator = True, lastTokenWasOpeningBracket = False\<rparr>) \<and>
   \<not> (\<exists>ts. validate_loop validate_init ts =
      Some \<lparr>openBrackets = 0, lastTokenWasOperator = True, lastTokenWasOpeningBracket = True\<rparr>)"
  using validate_reachable_iff [of "\<lparr>openBrackets = 2, lastTokenWasOperator = True, lastTokenWasOpeningBracket = False\<rparr>"]
    validate_reachable_iff [of "\<lparr>openBrackets = 0, lastTokenWasOperator = True, lastTokenWasOpeningBracket = True\<rparr>"]
  by simp

theorem validate_depth_bound_witness:
  "validate_loop validate_init [''('', ''1'', '')'', ''+'', ''(''] =
     Some \<lparr>openBrackets = 1, lastTokenWasOperator = True, lastTokenWasOpeningBracket = True\<rparr> \<and>
   (1::int) \<le> int (length [''('', ''1'', '')'', ''+'', ''(''])"
  using validate_depth_bound [of "[''('', ''1'', '')'', ''+'', ''('']"
      "\<lparr>openBrackets = 1, lastTokenWasOperator = True, lastTokenWasOpeningBracket = True\<rparr>"]
  by (simp add: calc_eval)

end
