(* ===== verification/Calc_Arith.thy ===== *)
theory Calc_Arith
  imports Calc_Prelude
begin

text \<open>
  The two arithmetic helpers of \<^verbatim>\<open>src/main.cpp\<close>: the operator table \<^verbatim>\<open>precedence\<close>
  (lines 11--19) and \<^verbatim>\<open>applyOp\<close> (lines 22--34). A C++ \<^verbatim>\<open>double\<close> is modelled as an
  exact \<open>real\<close>: rounding, overflow to infinity and NaN are not modelled.
  \<^verbatim>\<open>std::pow\<close> is \<open>pow_real\<close>: an integral exponent is an integer power
  (\<open>powi\<close>), any other exponent the real power \<open>powr\<close>; both agree with \<^verbatim>\<open>std::pow\<close>
  wherever its result is finite.
\<close>

definition precedence :: "char \<Rightarrow> int" where
  "precedence op =
     (if op = CHR ''+'' \<or> op = CHR ''-'' then 1
      else if op = CHR ''*'' \<or> op = CHR ''/'' then 2
      else if op = CHR ''^'' then 3
      else 0)"

definition pow_real :: "real \<Rightarrow> real \<Rightarrow> real" where
  "pow_real a b = (if b = of_int \<lfloor>b\<rfloor> then a powi \<lfloor>b\<rfloor> else a powr b)"

definition applyOp :: "real \<Rightarrow> real \<Rightarrow> char \<Rightarrow> real result" where
  "applyOp a b op =
     (if op = CHR ''+'' then Inr (a + b)
      else if op = CHR ''-'' then Inr (a - b)
      else if op = CHR ''*'' then Inr (a * b)
      else if op = CHR ''/'' then (if b = 0 then Inl DivisionByZero else Inr (a / b))
      else if op = CHR ''^'' then Inr (pow_real a b)
      else Inr 0)"

text \<open>The five operators the program is written for.\<close>

definition is_op :: "char \<Rightarrow> bool" where
  "is_op c \<longleftrightarrow> c = CHR ''+'' \<or> c = CHR ''-'' \<or> c = CHR ''*'' \<or> c = CHR ''/'' \<or> c = CHR ''^''"

declare precedence_def [calc_eval] applyOp_def [calc_eval] is_op_def [calc_eval]

section \<open>Properties\<close>

lemma precedence_special [calc_simps]:
  "precedence CHR ''+'' = 1" "precedence CHR ''-'' = 1" "precedence CHR ''*'' = 2"
  "precedence CHR ''/'' = 2" "precedence CHR ''^'' = 3" "precedence CHR ''('' = 0"
  "precedence CHR '')'' = 0"
  by (simp_all add: precedence_def)

lemma precedence_range: "0 \<le> precedence c \<and> precedence c \<le> 3"
  by (simp add: precedence_def)

text \<open>
  C24: exactly the five operators bind: their precedence is positive, and every other
  character, brackets and blanks included, has precedence 0.
\<close>

theorem precedence_pos_iff: "(0 < precedence c \<longleftrightarrow> is_op c) \<and> (precedence c = 0 \<longleftrightarrow> \<not> is_op c)"
  by (auto simp: precedence_def is_op_def)

lemma precedence_pos_is_op: "0 < precedence c \<Longrightarrow> is_op c"
  by (auto simp: precedence_def is_op_def split: if_splits)

lemma is_op_not_numchar: "is_op c \<Longrightarrow> \<not> numchar c"
  by (auto simp: is_op_def calc_simps)

lemma is_op_not_space: "is_op c \<Longrightarrow> \<not> is_space c"
  by (auto simp: is_op_def calc_simps)

lemma is_op_not_paren: "is_op c \<Longrightarrow> c \<noteq> CHR ''('' \<and> c \<noteq> CHR '')''"
  by (auto simp: is_op_def)

text \<open>C23: \<^verbatim>\<open>applyOp\<close> fails only on a division whose right operand is zero.\<close>

theorem applyOp_error_iff:
  "applyOp a b op = Inl e \<longleftrightarrow> op = CHR ''/'' \<and> b = 0 \<and> e = DivisionByZero"
  by (auto simp: applyOp_def)

lemma applyOp_errors: "applyOp a b op = Inl e \<Longrightarrow> e = DivisionByZero"
  by (simp add: applyOp_def split: if_splits)

lemma applyOp_ok [calc_simps]:
  "applyOp a b CHR ''+'' = Inr (a + b)" "applyOp a b CHR ''-'' = Inr (a - b)"
  "applyOp a b CHR ''*'' = Inr (a * b)" "applyOp a b CHR ''^'' = Inr (pow_real a b)"
  "applyOp a b CHR ''/'' = (if b = 0 then Inl DivisionByZero else Inr (a / b))"
  by (simp_all add: applyOp_def)

lemma pow_real_int [calc_simps]: "pow_real a (of_int n) = a powi n"
  by (simp add: pow_real_def)

lemma pow_real_numeral [calc_simps]: "pow_real a (numeral n) = a ^ numeral n"
  using pow_real_int [of a "numeral n"] by simp

end
