(* ===== verification/Calc_Converter.thy ===== *)
theory Calc_Converter
  imports Calc_Tokenizer Calc_Validator Calc_Arith "HOL-Library.While_Combinator"
begin

text \<open>
  The converter, \<^verbatim>\<open>infixToPostfix\<close> (\<^verbatim>\<open>src/main.cpp\<close> lines 115--153): tokenize,
  validate, then the shunting-yard loop. The \<^verbatim>\<open>std::stack<char> operators\<close> is a list
  with its top at the head and the output \<^verbatim>\<open>postfix\<close> a string, together the record
  \<open>cstate\<close>. The two \<^verbatim>\<open>while\<close> loops that pop operators to the output are one function
  \<open>pop_while\<close> over the stack; a \<^verbatim>\<open>pop()\<close> of an empty stack, undefined in C++, is the
  outcome \<open>EmptyStackAccess\<close>. The lemmas show that validation and the operator stack
  agree (every open bracket of the validator is a \<open>(\<close> on the stack), hence that the
  loop never pops an empty stack when every operator token is one of the five operators,
  and that it does pop an empty stack on the validated input \<open>(3 4)\<close>. The popping loops are
  also kept as \<^verbatim>\<open>while\<close> loops (\<open>pop_loop\<close>, by \<open>while_option\<close>): they stop, and they
  compute \<open>pop_ops\<close>.
\<close>

record cstate =
  operators :: "char list"
  postfix :: string

definition convert_init :: cstate where
  "convert_init = \<lparr>operators = [], postfix = []\<rparr>"

text \<open>
  \<^verbatim>\<open>while (!operators.empty() && P(operators.top())) {
    postfix += operators.top(); postfix += " "; operators.pop(); }\<close>
\<close>

fun pop_while :: "(char \<Rightarrow> bool) \<Rightarrow> char list \<Rightarrow> string \<Rightarrow> char list \<times> string" where
  "pop_while P [] out = ([], out)"
| "pop_while P (c # cs) out =
     (if P c then pop_while P cs (out @ [c, CHR '' '']) else (c # cs, out))"

definition pop_ops :: "(char \<Rightarrow> bool) \<Rightarrow> cstate \<Rightarrow> cstate" where
  "pop_ops P st = (case pop_while P (operators st) (postfix st) of
      (ops, out) \<Rightarrow> st\<lparr>operators := ops, postfix := out\<rparr>)"

text \<open>
  The same loops kept as loops: the guard \<^verbatim>\<open>!operators.empty() && P(operators.top())\<close>
  and the body \<^verbatim>\<open>postfix += operators.top(); postfix += " "; operators.pop();\<close>,
  iterated by \<open>while_option\<close> (\<open>None\<close> would be a loop that never stops).
\<close>

definition pop_guard :: "(char \<Rightarrow> bool) \<Rightarrow> cstate \<Rightarrow> bool" where
  "pop_guard P st \<longleftrightarrow> operators st \<noteq> [] \<and> P (hd (operators st))"

definition pop_body :: "cstate \<Rightarrow> cstate" where
  "pop_body st = st\<lparr>postfix := (postfix st @ [hd (operators st)]) @ '' '',
                    operators := tl (operators st)\<rparr>"

definition pop_loop :: "(char \<Rightarrow> bool) \<Rightarrow> cstate \<Rightarrow> cstate option" where
  "pop_loop P st = while_option (pop_guard P) pop_body st"

definition convert_token :: "cstate \<Rightarrow> token \<Rightarrow> cstate result" where
  "convert_token st token =
     (if isNumber token then Inr (st\<lparr>postfix := postfix st @ token @ '' ''\<rparr>)
      else if token = ''('' then Inr (st\<lparr>operators := CHR ''('' # operators st\<rparr>)
      else if token = '')'' then
        (let st' = pop_ops (\<lambda>c. c \<noteq> CHR ''('') st in
         case operators st' of
           [] \<Rightarrow> Inl EmptyStackAccess
         | _ # ops \<Rightarrow> Inr (st'\<lparr>operators := ops\<rparr>))
      else
        (let st' = pop_ops (\<lambda>c. precedence (first_char token) \<le> precedence c) st in
         Inr (st'\<lparr>operators := first_char token # operators st'\<rparr>)))"

fun convert_loop :: "cstate \<Rightarrow> token list \<Rightarrow> cstate result" where
  "convert_loop st [] = Inr st"
| "convert_loop st (t # ts) = ebind (convert_token st t) (\<lambda>st'. convert_loop st' ts)"

definition infixToPostfix :: "string \<Rightarrow> string result" where
  "infixToPostfix expression =
     (let tokens = tokenize expression in
      if \<not> validateExpression tokens then Inl InvalidExpression
      else ebind (convert_loop convert_init tokens)
             (\<lambda>st. Inr (postfix (pop_ops (\<lambda>_. True) st))))"

declare convert_init_def [calc_eval] pop_ops_def [calc_eval] convert_token_def [calc_eval]
  infixToPostfix_def [calc_eval]

text \<open>
  The tokens the program is written for: numbers, brackets, and operator tokens whose first
  character is one of the five operators (positive precedence).
\<close>

definition op_tokens_ok :: "token list \<Rightarrow> bool" where
  "op_tokens_ok ts \<longleftrightarrow>
     (\<forall>t\<in>set ts. isNumber t \<or> t = ''('' \<or> t = '')'' \<or> 0 < precedence (first_char t))"

text \<open>How many open brackets the operator stack holds.\<close>

abbreviation opens :: "cstate \<Rightarrow> int" where
  "opens cs \<equiv> int (count_list (operators cs) CHR ''('')"

section \<open>The popping loop\<close>

text \<open>\<open>pop_while\<close> moves the longest prefix of the stack that satisfies the test to the output.\<close>

lemma pop_while_eq:
  "pop_while P ops out = (dropWhile P ops, out @ spaced (map (\<lambda>c. [c]) (takeWhile P ops)))"
  by (induction ops arbitrary: out) simp_all

lemma pop_ops_eq:
  "pop_ops P st = st\<lparr>operators := dropWhile P (operators st),
     postfix := postfix st @ spaced (map (\<lambda>c. [c]) (takeWhile P (operators st)))\<rparr>"
  by (simp add: pop_ops_def pop_while_eq)

section \<open>The popping loops as \<^verbatim>\<open>while\<close> loops\<close>

text \<open>C7: every popping loop stops: each round pops one operator off a finite stack.\<close>

theorem pop_loop_terminates: "\<exists>st'. pop_loop P st = Some st'"
  unfolding pop_loop_def
  by (rule measure_while_option_Some [where f = "\<lambda>st. length (operators st)" and P = "\<lambda>_. True"])
    (auto simp: pop_guard_def pop_body_def)

lemma pop_loop_unfold:
  "pop_loop P st = (if pop_guard P st then pop_loop P (pop_body st) else Some st)"
  unfolding pop_loop_def by (rule while_option_unfold)

text \<open>
  The \<^verbatim>\<open>while\<close> loop computes what \<open>pop_ops\<close> does: it moves the longest prefix of the
  stack that passes the test to the output, each operator followed by a blank.
\<close>

lemma pop_loop_eq: "pop_loop P st = Some (pop_ops P st)"
proof (induction "operators st" arbitrary: st)
  case Nil
  then show ?case
    by (simp add: pop_loop_unfold pop_guard_def pop_ops_def flip: Nil)
next
  case (Cons c cs)
  show ?case
  proof (cases "P c")
    case True
    have "pop_loop P (pop_body st) = Some (pop_ops P (pop_body st))"
      by (rule Cons.hyps) (simp add: pop_body_def flip: Cons.hyps(2))
    with True show ?thesis
      by (simp add: pop_loop_unfold pop_guard_def pop_body_def pop_ops_eq flip: Cons.hyps(2))
  next
    case False
    then show ?thesis
      by (simp add: pop_loop_unfold pop_guard_def pop_ops_eq flip: Cons.hyps(2))
  qed
qed

lemma convert_loop_append:
  "convert_loop st (xs @ ys) = ebind (convert_loop st xs) (\<lambda>st'. convert_loop st' ys)"
  by (induction xs arbitrary: st) (simp_all add: ebind_assoc)

lemma is_op_not_number: "is_op c \<Longrightarrow> \<not> isNumber [c]"
  by (rule single_nondigit_not_number) (auto simp: is_op_def calc_simps)

lemma paren_not_number [calc_simps]: "\<not> isNumber ''(''" "\<not> isNumber '')''"
  by (simp_all add: single_nondigit_not_number calc_simps)

section \<open>Validation keeps the operator stack safe\<close>

lemma count_list_takeWhile_dropWhile:
  "count_list xs x = count_list (takeWhile P xs) x + count_list (dropWhile P xs) x"
  by (metis count_list_append takeWhile_dropWhile_id)

lemma count_list_takeWhile_not:
  "\<not> P x \<Longrightarrow> count_list (takeWhile P xs) x = 0"
  by (induction xs) auto

lemma dropWhile_count_pos:
  "0 < count_list (dropWhile P xs) x \<Longrightarrow> \<exists>y ys. dropWhile P xs = y # ys \<and> \<not> P y"
proof -
  assume "0 < count_list (dropWhile P xs) x"
  then have ne: "dropWhile P xs \<noteq> []" by (metis count_list.simps(1) less_irrefl)
  then obtain y ys where eq: "dropWhile P xs = y # ys" by (cases "dropWhile P xs") auto
  from hd_dropWhile [OF ne] eq have "\<not> P y" by simp
  with eq show ?thesis by blast
qed

text \<open>
  A closing bracket pops down to the topmost \<open>(\<close>, which is there when the stack holds
  one; an operator pops only operators, never a bracket.
\<close>

lemma rparen_stack:
  "1 \<le> count_list ops CHR ''('' \<Longrightarrow>
   \<exists>ys. dropWhile (\<lambda>c. c \<noteq> CHR ''('') ops = CHR ''('' # ys \<and>
        count_list ys CHR ''('' = count_list ops CHR ''('' - 1"
proof -
  let ?P = "\<lambda>c. c \<noteq> CHR ''(''"
  assume d: "1 \<le> count_list ops CHR ''(''"
  have split: "count_list ops CHR ''('' = count_list (dropWhile ?P ops) CHR ''(''"
    using count_list_takeWhile_dropWhile [of ops _ ?P]
      count_list_takeWhile_not [of ?P "CHR ''(''"] by simp
  with d obtain ys where dw: "dropWhile ?P ops = CHR ''('' # ys"
    using dropWhile_count_pos [of ?P ops "CHR ''(''"] by auto
  with split show ?thesis
    by simp
qed

lemma count_dropWhile_keep:
  "\<not> P x \<Longrightarrow> count_list (dropWhile P xs) x = count_list xs x"
  using count_list_takeWhile_dropWhile [of xs x P] count_list_takeWhile_not [of P x xs] by simp

lemma convert_token_safe:
  assumes v: "validate_token vs t = Some vs'"
    and cnt: "opens cs = openBrackets vs"
    and ok: "isNumber t \<or> t = ''('' \<or> t = '')'' \<or> 0 < precedence (first_char t)"
  shows "\<exists>cs'. convert_token cs t = Inr cs' \<and> opens cs' = openBrackets vs'"
proof -
  consider (num) "isNumber t" | (lp) "t = ''(''" | (rp) "t = '')''"
    | (op) "\<not> isNumber t" "t \<noteq> ''(''" "t \<noteq> '')''" "0 < precedence (first_char t)"
    using ok by blast
  then show ?thesis
  proof cases
    case num
    with v cnt show ?thesis
      by (auto simp: validate_token_def convert_token_def calc_simps split: if_splits)
  next
    case lp
    with v cnt show ?thesis
      by (auto simp: validate_token_def convert_token_def calc_simps)
  next
    case rp
    from v rp have d: "1 \<le> openBrackets vs" and vs': "openBrackets vs' = openBrackets vs - 1"
      by (auto simp: validate_token_def Let_def split: if_splits)
    with cnt obtain ys where "dropWhile (\<lambda>c. c \<noteq> CHR ''('') (operators cs) = CHR ''('' # ys"
      and "count_list ys CHR ''('' = count_list (operators cs) CHR ''('' - 1"
      using rparen_stack [of "operators cs"] by auto
    with rp cnt vs' d show ?thesis
      by (simp add: convert_token_def pop_ops_eq calc_simps)
  next
    case op
    let ?c = "first_char t"
    from op have c: "?c \<noteq> CHR ''(''"
      by (auto simp: calc_simps)
    from op v have vs': "openBrackets vs' = openBrackets vs"
      by (auto simp: validate_token_def split: if_splits)
    have "count_list (dropWhile (\<lambda>x. precedence ?c \<le> precedence x) (operators cs)) CHR ''(''
            = count_list (operators cs) CHR ''(''"
      using op(4) by (intro count_dropWhile_keep) (simp add: calc_simps)
    with op c cnt vs' show ?thesis
      by (simp add: convert_token_def pop_ops_eq)
  qed
qed

lemma convert_loop_safe:
  "validate_loop vs ts = Some vs' \<Longrightarrow> opens cs = openBrackets vs \<Longrightarrow> op_tokens_ok ts \<Longrightarrow>
   \<exists>cs'. convert_loop cs ts = Inr cs' \<and> opens cs' = openBrackets vs'"
proof (induction ts arbitrary: vs cs)
  case Nil
  then show ?case by simp
next
  case (Cons t ts)
  from Cons.prems(1) obtain vs1 where v1: "validate_token vs t = Some vs1"
    and rest: "validate_loop vs1 ts = Some vs'"
    by (auto split: option.splits)
  from Cons.prems(3) have ok: "isNumber t \<or> t = ''('' \<or> t = '')'' \<or> 0 < precedence (first_char t)"
    and oks: "op_tokens_ok ts"
    by (simp_all add: op_tokens_ok_def)
  from convert_token_safe [OF v1 Cons.prems(2) ok] obtain cs1
    where c1: "convert_token cs t = Inr cs1" and n1: "opens cs1 = openBrackets vs1"
    by blast
  from Cons.IH [OF rest n1 oks] c1 show ?case by simp
qed

text \<open>
  C4: on a validated token list whose operator tokens are the five operators, the
  shunting-yard loop never pops an empty stack, and it ends with no open bracket left on
  the operator stack.
\<close>

theorem convert_validated_safe:
  "validateExpression ts \<Longrightarrow> op_tokens_ok ts \<Longrightarrow>
   \<exists>cs. convert_loop convert_init ts = Inr cs \<and> CHR ''('' \<notin> set (operators cs)"
proof -
  assume val: "validateExpression ts" and ok: "op_tokens_ok ts"
  then obtain vs where run: "validate_loop validate_init ts = Some vs" and d: "openBrackets vs = 0"
    by (auto simp: validateExpression_def split: option.splits)
  from convert_loop_safe [OF run _ ok, of convert_init] obtain cs
    where "convert_loop convert_init ts = Inr cs" and "opens cs = openBrackets vs"
    by (auto simp: convert_init_def validate_init_def)
  with d show ?thesis
    by (auto simp: count_list_0_iff)
qed

section \<open>Witnesses\<close>

theorem convert_validated_safe_witness:
  "validateExpression (tokenize ''((1+2)*3)'') \<and> op_tokens_ok (tokenize ''((1+2)*3)'') \<and>
   convert_loop convert_init (tokenize ''((1+2)*3)'') = Inr \<lparr>operators = [], postfix = ''1 2 + 3 * ''\<rparr>"
  using convert_validated_safe [of "tokenize ''((1+2)*3)''"]
  by (simp add: calc_eval op_tokens_ok_def)

end
