(* ===== verification/Calc_Evaluator.thy ===== *)
theory Calc_Evaluator
  imports Calc_Number Calc_Arith
begin

text \<open>
  The evaluator, \<^verbatim>\<open>evaluatePostfix\<close> (\<^verbatim>\<open>src/main.cpp\<close> lines 156--173). The
  \<^verbatim>\<open>std::istringstream\<close> read by \<^verbatim>\<open>tokens >> token\<close> is \<open>words\<close>, the split at
  blanks; the \<^verbatim>\<open>std::stack<double> values\<close> is a list of reals with its top at the
  head; one iteration is \<open>eval_token\<close>. \<^verbatim>\<open>top()\<close> of an empty stack is the outcome
  \<open>EmptyStackAccess\<close>. The lemmas give the stack discipline of the specification
  (section 3: a number pushes one value, an operator replaces two by one), and the round
  trip between printing tokens with blanks and reading them back. \<open>eval_stream\<close> is the loop
  as written, reading one word (\<open>read_token\<close>) and evaluating it before the next; it
  computes what evaluating the list of words computes.
\<close>

text \<open>\<^verbatim>\<open>while (tokens >> token)\<close>: skip blanks, read up to the next blank; \<open>acc\<close> is the word being read.\<close>

fun split_ws :: "string \<Rightarrow> string \<Rightarrow> token list" where
  "split_ws acc [] = (if acc = [] then [] else [acc])"
| "split_ws acc (c # cs) =
     (if is_space c then (if acc = [] then split_ws [] cs else acc # split_ws [] cs)
      else split_ws (acc @ [c]) cs)"

definition words :: "string \<Rightarrow> token list" where
  "words s = split_ws [] s"

definition eval_token :: "real list \<Rightarrow> token \<Rightarrow> real list result" where
  "eval_token values token =
     (if isNumber token then ebind (stod token) (\<lambda>v. Inr (v # values))
      else (case values of
              val2 # values' \<Rightarrow>
                (case values' of
                   val1 # values'' \<Rightarrow>
                     ebind (applyOp val1 val2 (first_char token)) (\<lambda>r. Inr (r # values''))
                 | [] \<Rightarrow> Inl EmptyStackAccess)
            | [] \<Rightarrow> Inl EmptyStackAccess))"

fun eval_loop :: "real list \<Rightarrow> token list \<Rightarrow> real list result" where
  "eval_loop values [] = Inr values"
| "eval_loop values (t # ts) = ebind (eval_token values t) (\<lambda>values'. eval_loop values' ts)"

definition evaluatePostfix :: "string \<Rightarrow> real result" where
  "evaluatePostfix expression =
     ebind (eval_loop [] (words expression))
       (\<lambda>values. case values of [] \<Rightarrow> Inl EmptyStackAccess | v # _ \<Rightarrow> Inr v)"

text \<open>
  The loop as the source writes it: \<^verbatim>\<open>tokens >> token\<close> (\<open>read_token\<close>) skips blanks
  and reads up to the next blank, failing at the end of the text, and each token read is
  evaluated before the next one is read.
\<close>

definition read_token :: "string \<Rightarrow> (token \<times> string) option" where
  "read_token s = (let r = dropWhile is_space s in
     if r = [] then None
     else Some (takeWhile (\<lambda>c. \<not> is_space c) r, dropWhile (\<lambda>c. \<not> is_space c) r))"

function eval_stream :: "real list \<Rightarrow> string \<Rightarrow> real list result" where
  "eval_stream values s =
     (case read_token s of
        None \<Rightarrow> Inr values
      | Some (token, rest) \<Rightarrow> ebind (eval_token values token) (\<lambda>values'. eval_stream values' rest))"
  by pat_completeness auto
termination
  by (relation "measure (\<lambda>(values, s). length s)")
    (auto simp: read_token_def Let_def split: if_splits intro: dropWhile_twice_shorter)

declare eval_stream.simps [simp del]

declare words_def [calc_eval] eval_token_def [calc_eval] evaluatePostfix_def [calc_eval]

text \<open>
  How the evaluator moves the height of its stack: a number adds one value, any other
  token needs two values and leaves one; \<open>None\<close> when a token finds too few values.
\<close>

fun height_run :: "nat \<Rightarrow> token list \<Rightarrow> nat option" where
  "height_run n [] = Some n"
| "height_run n (t # ts) =
     (if isNumber t then height_run (Suc n) ts
      else if 2 \<le> n then height_run (n - 1) ts else None)"

section \<open>Reading back printed tokens\<close>

lemma split_ws_blanks: "split_ws [] (dropWhile is_space s) = split_ws [] s"
  by (induction s) auto

lemma split_ws_run:
  "split_ws acc r =
     (let w = acc @ takeWhile (\<lambda>c. \<not> is_space c) r; rest = dropWhile (\<lambda>c. \<not> is_space c) r in
      if w = [] then split_ws [] rest else w # split_ws [] (drop 1 rest))"
proof (induction r arbitrary: acc)
  case Nil
  then show ?case by simp
next
  case (Cons c cs)
  show ?case
  proof (cases "is_space c")
    case True
    then show ?thesis by (simp add: Let_def)
  next
    case False
    then show ?thesis by (simp add: Cons.IH Let_def)
  qed
qed

lemma split_ws_rest:
  "split_ws [] (dropWhile (\<lambda>c. \<not> is_space c) r) = split_ws [] (drop 1 (dropWhile (\<lambda>c. \<not> is_space c) r))"
proof (cases "dropWhile (\<lambda>c. \<not> is_space c) r")
  case (Cons c cs)
  then have "is_space c"
    using hd_dropWhile [of "\<lambda>c. \<not> is_space c" r] by auto
  with Cons show ?thesis by simp
next
  case Nil
  then show ?thesis by (simp only: drop_Nil)
qed

text \<open>Reading one token off the stream is taking the first word of the text.\<close>

lemma words_read_token:
  "words s = (case read_token s of None \<Rightarrow> [] | Some (t, r) \<Rightarrow> t # words r)"
proof -
  let ?ns = "\<lambda>c. \<not> is_space c"
  let ?r = "dropWhile is_space s"
  have w: "words s = split_ws [] ?r"
    by (simp add: words_def split_ws_blanks)
  show ?thesis
  proof (cases ?r)
    case Nil
    with w show ?thesis by (simp add: read_token_def)
  next
    case (Cons c cs)
    from hd_dropWhile [of is_space s] Cons have "\<not> is_space c" by auto
    with Cons have tw: "takeWhile ?ns ?r \<noteq> []" by simp
    from split_ws_run [of "[]" ?r] tw
    have "split_ws [] ?r = takeWhile ?ns ?r # split_ws [] (drop 1 (dropWhile ?ns ?r))"
      by (simp add: Let_def del: split_ws.simps)
    moreover have "words (dropWhile ?ns ?r) = split_ws [] (drop 1 (dropWhile ?ns ?r))"
      by (simp add: words_def split_ws_rest del: split_ws.simps)
    moreover have "read_token s = Some (takeWhile ?ns ?r, dropWhile ?ns ?r)"
      using Cons by (simp add: read_token_def)
    ultimately show ?thesis
      using w by simp
  qed
qed

text \<open>
  Reading the postfix text word by word and evaluating each word at once, as the
  source's \<^verbatim>\<open>while (tokens >> token)\<close> loop does, is evaluating its list of words.
\<close>

lemma eval_stream_words: "eval_stream vs s = eval_loop vs (words s)"
proof (induction vs s rule: eval_stream.induct)
  case (1 vs s)
  show ?case
  proof (cases "read_token s")
    case None
    then show ?thesis
      by (simp add: eval_stream.simps words_read_token [of s])
  next
    case (Some p)
    then obtain t r where p: "read_token s = Some (t, r)" by (cases p) auto
    with "1.IH" have "\<And>v. eval_stream v r = eval_loop v (words r)"
      by blast
    with p show ?thesis
      by (simp add: eval_stream.simps words_read_token [of s])
  qed
qed

lemma split_ws_word:
  "list_all (\<lambda>c. \<not> is_space c) w \<Longrightarrow> split_ws acc (w @ c # cs) =
     (if is_space c then (if acc @ w = [] then split_ws [] cs else (acc @ w) # split_ws [] cs)
      else split_ws (acc @ w @ [c]) cs)"
  by (induction w arbitrary: acc) auto

text \<open>
  Printing non-empty tokens without blanks, each followed by a blank, and splitting
  the text at blanks gives the tokens back.
\<close>

lemma words_spaced:
  "\<forall>t\<in>set ts. t \<noteq> [] \<and> list_all (\<lambda>c. \<not> is_space c) t \<Longrightarrow> words (spaced ts) = ts"
proof (induction ts)
  case Nil
  then show ?case by (simp add: words_def)
next
  case (Cons t ts)
  then have "split_ws [] (t @ CHR '' '' # spaced ts) = t # split_ws [] (spaced ts)"
    by (simp add: split_ws_word is_space_def)
  with Cons show ?case by (simp add: words_def)
qed

section \<open>The value stack\<close>

lemma eval_loop_append:
  "eval_loop vs (xs @ ys) = ebind (eval_loop vs xs) (\<lambda>vs'. eval_loop vs' ys)"
  by (induction xs arbitrary: vs) (simp_all add: ebind_assoc)

lemma eval_token_height:
  "eval_token vs t = Inr vs' \<Longrightarrow>
   length vs' = (if isNumber t then Suc (length vs) else length vs - 1) \<and> (\<not> isNumber t \<longrightarrow> 2 \<le> length vs)"
  by (auto simp: eval_token_def ebind_eq_Inr split: list.splits if_splits)

text \<open>
  C21: the stack discipline of the specification: when evaluation succeeds, the final
  height is what counting one up per number and one down per operator gives, and no
  operator found fewer than two values.
\<close>

theorem eval_loop_height:
  "eval_loop vs ts = Inr vs' \<Longrightarrow> height_run (length vs) ts = Some (length vs')"
proof (induction ts arbitrary: vs)
  case Nil
  then show ?case by simp
next
  case (Cons t ts)
  then obtain vs1 where s1: "eval_token vs t = Inr vs1" and rest: "eval_loop vs1 ts = Inr vs'"
    by (auto simp: ebind_eq_Inr)
  from Cons.IH [OF rest] eval_token_height [OF s1] show ?case by auto
qed

lemma eval_token_no_underflow:
  "(isNumber t \<or> 2 \<le> length vs) \<Longrightarrow> eval_token vs t \<noteq> Inl EmptyStackAccess"
proof -
  assume h: "isNumber t \<or> 2 \<le> length vs"
  show ?thesis
  proof (cases "isNumber t")
    case True
    then show ?thesis
      using isNumber_stod_cases [OF True] by (cases "stod t") (simp_all add: eval_token_def)
  next
    case False
    with h obtain a b rest where "vs = a # b # rest"
      by (cases vs rule: remdups_adj.cases) auto
    with False have "eval_token vs t = ebind (applyOp b a (first_char t)) (\<lambda>r. Inr (r # rest))"
      by (simp add: eval_token_def)
    moreover have "applyOp b a (first_char t) \<noteq> Inl EmptyStackAccess"
      using applyOp_errors by blast
    ultimately show ?thesis
      by (cases "applyOp b a (first_char t)") auto
  qed
qed

text \<open>
  C22: when the height count never drops below two at an operator, evaluation never reads
  an empty stack: the only errors left are those of the arithmetic and of \<^verbatim>\<open>stod\<close>.
\<close>

theorem eval_loop_no_underflow:
  "height_run (length vs) ts \<noteq> None \<Longrightarrow> eval_loop vs ts \<noteq> Inl EmptyStackAccess"
proof (induction ts arbitrary: vs)
  case Nil
  then show ?case by simp
next
  case (Cons t ts)
  from Cons.prems have ok: "isNumber t \<or> 2 \<le> length vs"
    by (auto split: if_splits)
  show ?case
  proof (cases "eval_token vs t")
    case (Inl e)
    with eval_token_no_underflow [OF ok] show ?thesis by simp
  next
    case (Inr vs1)
    from eval_token_height [OF Inr] Cons.prems
    have "height_run (length vs1) ts \<noteq> None"
      by (auto split: if_splits)
    with Cons.IH [of vs1] Inr show ?thesis by simp
  qed
qed

lemma stod_errors: "stod s = Inl e \<Longrightarrow> e = StodInvalid \<or> e = StodOutOfRange"
  by (auto simp: stod_def split: option.splits if_splits prod.splits)

lemma eval_token_errors:
  "eval_token vs t = Inl e \<Longrightarrow> e = EmptyStackAccess \<or> e = DivisionByZero \<or> e = StodOutOfRange"
proof -
  assume err: "eval_token vs t = Inl e"
  show ?thesis
  proof (cases "isNumber t")
    case True
    with err have "stod t = Inl e"
      by (cases "stod t") (simp_all add: eval_token_def)
    with isNumber_stod_cases [OF True] stod_errors show ?thesis by blast
  next
    case False
    with err applyOp_errors show ?thesis
      by (auto simp: eval_token_def ebind_eq_Inl split: list.splits)
  qed
qed

lemma eval_loop_errors:
  "eval_loop vs ts = Inl e \<Longrightarrow> e = EmptyStackAccess \<or> e = DivisionByZero \<or> e = StodOutOfRange"
proof (induction ts arbitrary: vs)
  case Nil
  then show ?case by simp
next
  case (Cons t ts)
  show ?case
  proof (cases "eval_token vs t")
    case (Inl e')
    with Cons.prems have "eval_token vs t = Inl e" by simp
    then show ?thesis by (rule eval_token_errors)
  next
    case (Inr vs1)
    with Cons.prems have "eval_loop vs1 ts = Inl e" by simp
    then show ?thesis by (rule Cons.IH)
  qed
qed

lemma height_run_append:
  "height_run n (xs @ ys) = (case height_run n xs of None \<Rightarrow> None | Some m \<Rightarrow> height_run m ys)"
  by (induction xs arbitrary: n) auto

text \<open>
  When the height count goes through, the loop either ends with that many values or stops
  at an error of the arithmetic or of \<^verbatim>\<open>stod\<close>, never at an empty stack.
\<close>

lemma eval_loop_run:
  "height_run (length vs) ts = Some h \<Longrightarrow>
   (\<exists>vs'. eval_loop vs ts = Inr vs' \<and> length vs' = h) \<or>
   (\<exists>e. eval_loop vs ts = Inl e \<and> (e = DivisionByZero \<or> e = StodOutOfRange))"
proof (induction ts arbitrary: vs)
  case Nil
  then show ?case by simp
next
  case (Cons t ts)
  from Cons.prems have ok: "isNumber t \<or> 2 \<le> length vs"
    by (auto split: if_splits)
  show ?case
  proof (cases "eval_token vs t")
    case (Inl e)
    with eval_token_no_underflow [OF ok] eval_token_errors [OF Inl] show ?thesis
      by simp
  next
    case (Inr vs1)
    from eval_token_height [OF Inr] Cons.prems
    have "height_run (length vs1) ts = Some h"
      by (auto split: if_splits)
    with Cons.IH [of vs1] Inr show ?thesis by simp
  qed
qed

section \<open>Witnesses\<close>

theorem eval_loop_height_witness:
  "eval_loop [] [''1'', ''2'', ''+''] = Inr [3] \<and> height_run 0 [''1'', ''2'', ''+''] = Some 1"
  using eval_loop_height [of "[]" "[''1'', ''2'', ''+'']" "[3]"] by (simp add: calc_eval)

theorem eval_loop_no_underflow_witness:
  "height_run 0 [''1'', ''0'', ''/''] = Some 1 \<and> eval_loop [] [''1'', ''0'', ''/''] = Inl DivisionByZero"
  using eval_loop_no_underflow [of "[]" "[''1'', ''0'', ''/'']"] by (simp add: calc_eval)

end
