(* ===== verification/Calc_Expr.thy ===== *)
theory Calc_Expr
  imports Calc_Converter Calc_Evaluator
begin

text \<open>
  The abstract specification the pipeline implements: arithmetic expressions as trees
  (\<open>expr\<close>), their value (\<open>aval\<close>, with the errors of the arithmetic and of number
  conversion), their postfix form (\<open>post\<close>) and their printing as infix tokens
  (\<open>tok_expr\<close>) with the fewest brackets under the program's rules: precedence
  1 for \<open>+ -\<close>, 2 for \<open>* /\<close>, 3 for \<open>^\<close>, every operator grouping to the left. The
  lemmas relate each stage of the program to this specification: the tokenizer reads the
  printed tokens back, the validator accepts them, the shunting-yard loop turns them into
  the postfix form, and the evaluator computes the value of that form.
\<close>

datatype expr = Lit token | Bin char expr expr

definition prec :: "char \<Rightarrow> nat" where
  "prec c = nat (precedence c)"

fun wf_expr :: "expr \<Rightarrow> bool" where
  "wf_expr (Lit s) \<longleftrightarrow> lexeme s \<and> isNumber s"
| "wf_expr (Bin op l r) \<longleftrightarrow> is_op op \<and> wf_expr l \<and> wf_expr r"

fun aval :: "expr \<Rightarrow> real result" where
  "aval (Lit s) = stod s"
| "aval (Bin op l r) = ebind (aval l) (\<lambda>a. ebind (aval r) (\<lambda>b. applyOp a b op))"

fun post :: "expr \<Rightarrow> token list" where
  "post (Lit s) = [s]"
| "post (Bin op l r) = post l @ post r @ [[op]]"

text \<open>
  \<open>tok_expr p e\<close> prints \<open>e\<close> where the context binds with precedence \<open>p\<close>: an operator
  that binds more weakly is bracketed; a left operand may bind as weakly as its parent,
  a right operand must bind more strongly.
\<close>

fun tok_expr :: "nat \<Rightarrow> expr \<Rightarrow> token list" where
  "tok_expr p (Lit s) = [s]"
| "tok_expr p (Bin op l r) =
     (let q = prec op; body = tok_expr q l @ [op] # tok_expr (Suc q) r
      in if q < p then ''('' # body @ ['')''] else body)"

declare prec_def [calc_eval]

text \<open>
  \<open>operand_ok B\<close>: from any state that expects an operand, the validator reads \<open>B\<close>
  as one complete operand and comes back to the same depth.
\<close>

definition operand_ok :: "token list \<Rightarrow> bool" where
  "operand_ok B \<longleftrightarrow> (\<forall>st. lastTokenWasOperator st \<longrightarrow> 0 \<le> openBrackets st \<longrightarrow>
     validate_loop st B = Some (st\<lparr>lastTokenWasOperator := False, lastTokenWasOpeningBracket := False\<rparr>))"

text \<open>
  \<open>conv_ok p B P\<close>: reading the tokens \<open>B\<close> from any stack whose operators above the
  topmost bracket bind more weakly than \<open>p\<close> leaves that stack in place, with operators
  \<open>T\<close> binding at least as strongly as \<open>p\<close> pushed on it, and writes \<open>X\<close>; popping
  \<open>T\<close> afterwards completes the postfix form \<open>P\<close>. This is the loop invariant of the
  shunting-yard algorithm, stated per operand.
\<close>

definition conv_ok :: "nat \<Rightarrow> token list \<Rightarrow> token list \<Rightarrow> bool" where
  "conv_ok p B P \<longleftrightarrow> (\<forall>ops out.
     (\<forall>c\<in>set (takeWhile (\<lambda>c. c \<noteq> CHR ''('') ops). precedence c < int p) \<longrightarrow>
     (\<exists>T X. convert_loop \<lparr>operators = ops, postfix = out\<rparr> B =
              Inr \<lparr>operators = T @ ops, postfix = out @ spaced X\<rparr> \<and>
            X @ map (\<lambda>c. [c]) T = P \<and> (\<forall>c\<in>set T. int p \<le> precedence c \<and> c \<noteq> CHR ''('')))"

lemma is_op_facts:
  assumes "is_op c"
  shows "\<not> is_digit c" "\<not> numchar c" "\<not> is_space c" "c \<noteq> CHR ''(''" "c \<noteq> CHR '')''"
    "0 < precedence c" "int (prec c) = precedence c" "0 < prec c" "\<not> isNumber [c]"
  using assms
  by (auto simp: is_op_def prec_def calc_simps single_nondigit_not_number)

text \<open>
  A property of every printed operand follows from the property of the unbracketed body
  and its preservation by brackets.
\<close>

lemma tok_expr_Bin_cases:
  assumes B: "B = tok_expr (prec op) l @ [op] # tok_expr (Suc (prec op)) r"
    and body: "\<not> prec op < p \<Longrightarrow> P B" and paren: "prec op < p \<Longrightarrow> P (''('' # B @ ['')''])"
  shows "P (tok_expr p (Bin op l r))"
proof (cases "prec op < p")
  case True
  then have "tok_expr p (Bin op l r) = ''('' # B @ ['')'']" by (simp add: B Let_def)
  with paren [OF True] show ?thesis by (simp only:)
next
  case False
  then have "tok_expr p (Bin op l r) = B" by (simp add: B Let_def)
  with body [OF False] show ?thesis by (simp only:)
qed

section \<open>The evaluator computes the value of the postfix form\<close>

lemma eval_token_op:
  "is_op op \<Longrightarrow> eval_token (b # a # vs) [op] = ebind (applyOp a b op) (\<lambda>r. Inr (r # vs))"
  by (simp add: eval_token_def is_op_facts)

text \<open>
  On the postfix form of a well-formed expression, the evaluator's loop pushes the
  value of the expression onto whatever stack it starts with, or stops with the error
  the expression's value has.
\<close>

lemma eval_loop_post:
  "wf_expr e \<Longrightarrow> eval_loop vs (post e) = ebind (aval e) (\<lambda>v. Inr (v # vs))"
proof (induction e arbitrary: vs)
  case (Lit s)
  then show ?case
    by (simp add: eval_token_def)
next
  case (Bin op l r)
  then have op: "is_op op" and wl: "wf_expr l" and wr: "wf_expr r" by simp_all
  have "eval_loop vs (post (Bin op l r)) =
        ebind (eval_loop vs (post l)) (\<lambda>vs1. ebind (eval_loop vs1 (post r)) (\<lambda>vs2. eval_loop vs2 [[op]]))"
    by (simp add: eval_loop_append)
  also have "\<dots> = ebind (aval l) (\<lambda>a. ebind (aval r) (\<lambda>b. eval_loop (b # a # vs) [[op]]))"
    using Bin.IH(1) [OF wl] Bin.IH(2) [OF wr] by (simp add: ebind_assoc)
  also have "\<dots> = ebind (aval (Bin op l r)) (\<lambda>v. Inr (v # vs))"
    using op by (simp add: eval_token_op ebind_assoc)
  finally show ?case .
qed

text \<open>The postfix form consists of non-empty words without blanks.\<close>

lemma post_printable:
  "wf_expr e \<Longrightarrow> \<forall>t\<in>set (post e). t \<noteq> [] \<and> list_all (\<lambda>c. \<not> is_space c) t"
  by (induction e) (auto simp: lexeme_no_space is_op_facts)

section \<open>The tokenizer reads the printed tokens back\<close>

lemma lexeme_not_op: "is_op c \<Longrightarrow> \<not> lexeme [c]"
  by (simp add: lexeme_def is_op_facts)

lemma paren_not_lexeme [calc_simps]: "\<not> lexeme ''(''" "\<not> lexeme '')''"
  by (simp_all add: lexeme_def calc_simps)

lemma sep_binop:
  assumes L: "sep_ok True False L" "fst (sep_after True False L) = False"
    and R: "sep_ok True False R" "fst (sep_after True False R) = False" and op: "is_op op"
  shows "sep_ok True False (L @ [op] # R) \<and> fst (sep_after True False (L @ [op] # R)) = False"
proof -
  obtain pl where aL: "sep_after True False L = (False, pl)"
    using L(2) by (cases "sep_after True False L") auto
  show ?thesis
    by (simp add: sep_ok_append sep_after_append aL L(1) R lexeme_not_op [OF op] is_op_facts [OF op])
qed

lemma sep_paren:
  assumes B: "sep_ok True False B" "fst (sep_after True False B) = False"
  shows "sep_ok True False (''('' # B @ ['')'']) \<and> fst (sep_after True False (''('' # B @ ['')''])) = False"
proof -
  obtain pl where aB: "sep_after True False B = (False, pl)"
    using B(2) by (cases "sep_after True False B") auto
  show ?thesis
    by (simp add: sep_ok_append sep_after_append aB B(1) calc_simps)
qed

lemma sep_tok_expr:
  "wf_expr e \<Longrightarrow> sep_ok True False (tok_expr p e) \<and> fst (sep_after True False (tok_expr p e)) = False"
proof (induction e arbitrary: p)
  case (Lit s)
  then show ?case by simp
next
  case (Bin op l r)
  then have op: "is_op op" and wl: "wf_expr l" and wr: "wf_expr r" by simp_all
  let ?B = "tok_expr (prec op) l @ [op] # tok_expr (Suc (prec op)) r"
  from Bin.IH(1) [OF wl] Bin.IH(2) [OF wr] op
  have body: "sep_ok True False ?B \<and> fst (sep_after True False ?B) = False"
    by (intro sep_binop) auto
  then have paren: "sep_ok True False (''('' # ?B @ ['')'']) \<and>
      fst (sep_after True False (''('' # ?B @ ['')''])) = False"
    by (intro sep_paren) auto
  show ?case
    using body paren
    by (intro tok_expr_Bin_cases [OF refl, where P = "\<lambda>B. sep_ok True False B \<and> fst (sep_after True False B) = False"])
      blast+
qed

text \<open>The tokenizer splits the printed form of a well-formed expression into exactly its tokens.\<close>

lemma tokenize_tok_expr: "wf_expr e \<Longrightarrow> tokenize (concat (tok_expr p e)) = tok_expr p e"
  using sep_tok_expr tokenize_sep_ok by blast

section \<open>The validator accepts the printed tokens\<close>

lemma operand_lit: "lexeme s \<Longrightarrow> isNumber s \<Longrightarrow> operand_ok [s]"
proof -
  assume "lexeme s" "isNumber s"
  then have "s \<noteq> ''(''" "s \<noteq> '')''" by (auto simp: calc_simps)
  with \<open>isNumber s\<close> show ?thesis
    by (simp add: operand_ok_def validate_token_def)
qed

lemma operand_binop:
  assumes L: "operand_ok L" and R: "operand_ok R" and op: "is_op op"
  shows "operand_ok (L @ [op] # R)"
  unfolding operand_ok_def
proof (intro allI impI)
  fix st :: vstate
  assume e: "lastTokenWasOperator st" and d: "0 \<le> openBrackets st"
  let ?st1 = "st\<lparr>lastTokenWasOperator := False, lastTokenWasOpeningBracket := False\<rparr>"
  let ?st2 = "st\<lparr>lastTokenWasOperator := True, lastTokenWasOpeningBracket := False\<rparr>"
  have "validate_token ?st1 [op] = Some ?st2"
    using op by (simp add: validate_token_def is_op_facts)
  moreover have "validate_loop ?st2 R = Some ?st1"
    using R d by (simp add: operand_ok_def)
  ultimately show "validate_loop st (L @ [op] # R) = Some ?st1"
    using L e d by (simp add: operand_ok_def validate_loop_append)
qed

lemma operand_paren:
  assumes B: "operand_ok B"
  shows "operand_ok (''('' # B @ ['')''])"
  unfolding operand_ok_def
proof (intro allI impI)
  fix st :: vstate
  assume e: "lastTokenWasOperator st" and d: "0 \<le> openBrackets st"
  let ?st1 = "st\<lparr>openBrackets := openBrackets st + 1, lastTokenWasOperator := True,
                 lastTokenWasOpeningBracket := True\<rparr>"
  have "validate_token st ''('' = Some ?st1"
    by (simp add: validate_token_def)
  moreover have "validate_loop ?st1 B =
      Some (?st1\<lparr>lastTokenWasOperator := False, lastTokenWasOpeningBracket := False\<rparr>)"
    using B d by (simp add: operand_ok_def)
  ultimately show "validate_loop st (''('' # B @ ['')'']) =
      Some (st\<lparr>lastTokenWasOperator := False, lastTokenWasOpeningBracket := False\<rparr>)"
    using d by (simp add: validate_loop_append validate_token_def Let_def)
qed

lemma operand_tok_expr: "wf_expr e \<Longrightarrow> operand_ok (tok_expr p e)"
proof (induction e arbitrary: p)
  case (Lit s)
  then show ?case by (simp add: operand_lit)
next
  case (Bin op l r)
  then have body: "operand_ok (tok_expr (prec op) l @ [op] # tok_expr (Suc (prec op)) r)"
    by (intro operand_binop) simp_all
  show ?case
    using body operand_paren [OF body]
    by (intro tok_expr_Bin_cases [OF refl, where P = operand_ok]) blast+
qed

text \<open>\<^verbatim>\<open>validateExpression\<close> accepts the printed tokens of every well-formed expression.\<close>

lemma validate_tok_expr: "wf_expr e \<Longrightarrow> validateExpression (tok_expr p e)"
  using operand_tok_expr [of e p]
  by (simp add: operand_ok_def validateExpression_def validate_init_def)

section \<open>The shunting-yard loop produces the postfix form\<close>

lemma conv_lit: "isNumber s \<Longrightarrow> conv_ok p [s] [s]"
  unfolding conv_ok_def
proof (intro allI impI)
  fix ops out
  assume "isNumber s"
  then have "convert_loop \<lparr>operators = ops, postfix = out\<rparr> [s] =
             Inr \<lparr>operators = [] @ ops, postfix = out @ spaced [s]\<rparr>"
    by (simp add: convert_token_def)
  then show "\<exists>T X. convert_loop \<lparr>operators = ops, postfix = out\<rparr> [s] =
              Inr \<lparr>operators = T @ ops, postfix = out @ spaced X\<rparr> \<and>
            X @ map (\<lambda>c. [c]) T = [s] \<and> (\<forall>c\<in>set T. int p \<le> precedence c \<and> c \<noteq> CHR ''('')"
    by fastforce
qed

lemma conv_mono: "conv_ok q B P \<Longrightarrow> p \<le> q \<Longrightarrow> conv_ok p B P"
  unfolding conv_ok_def by (meson le_less_trans of_nat_le_iff order_trans less_le_trans)

lemma stack_stop:
  assumes "\<forall>c\<in>set T. P c" "\<forall>c r. ops = c # r \<longrightarrow> \<not> P c"
  shows "takeWhile P (T @ ops) = T" "dropWhile P (T @ ops) = ops"
  using assms by (cases ops; simp add: takeWhile_append2 dropWhile_append2)+

lemma conv_binop:
  assumes op: "is_op op" and L: "conv_ok (prec op) L PL" and R: "conv_ok (Suc (prec op)) R PR"
  shows "conv_ok (prec op) (L @ [op] # R) (PL @ PR @ [[op]])"
  unfolding conv_ok_def
proof (intro allI impI)
  fix ops out
  assume cond: "\<forall>c\<in>set (takeWhile (\<lambda>c. c \<noteq> CHR ''('') ops). precedence c < int (prec op)"
  obtain T1 X1 where l: "convert_loop \<lparr>operators = ops, postfix = out\<rparr> L =
        Inr \<lparr>operators = T1 @ ops, postfix = out @ spaced X1\<rparr>"
    and x1: "X1 @ map (\<lambda>c. [c]) T1 = PL" and t1: "\<forall>c\<in>set T1. int (prec op) \<le> precedence c \<and> c \<noteq> CHR ''(''"
    using L cond unfolding conv_ok_def by blast
  let ?P = "\<lambda>c. precedence op \<le> precedence c"
  have stop: "\<forall>c r. ops = c # r \<longrightarrow> \<not> ?P c"
  proof (intro allI impI)
    fix c r
    assume ops: "ops = c # r"
    show "\<not> ?P c"
    proof (cases "c = CHR ''(''")
      case True
      with is_op_facts(6) [OF op] show ?thesis by (simp add: calc_simps)
    next
      case False
      with ops cond op show ?thesis by (simp add: is_op_facts)
    qed
  qed
  have all: "\<forall>c\<in>set T1. ?P c"
    using t1 op by (simp add: is_op_facts)
  let ?out2 = "out @ spaced X1 @ spaced (map (\<lambda>c. [c]) T1)"
  have tok: "convert_token \<lparr>operators = T1 @ ops, postfix = out @ spaced X1\<rparr> [op] =
             Inr \<lparr>operators = op # ops, postfix = ?out2\<rparr>"
    using op by (simp add: convert_token_def pop_ops_eq stack_stop [OF all stop] is_op_facts)
  have cond2: "\<forall>c\<in>set (takeWhile (\<lambda>c. c \<noteq> CHR ''('') (op # ops)). precedence c < int (Suc (prec op))"
    using cond op by (auto simp: is_op_facts)
  obtain T2 X2 where r: "convert_loop \<lparr>operators = op # ops, postfix = ?out2\<rparr> R =
        Inr \<lparr>operators = T2 @ op # ops, postfix = ?out2 @ spaced X2\<rparr>"
    and x2: "X2 @ map (\<lambda>c. [c]) T2 = PR" and t2: "\<forall>c\<in>set T2. int (Suc (prec op)) \<le> precedence c \<and> c \<noteq> CHR ''(''"
    using R cond2 unfolding conv_ok_def by blast
  have run: "convert_loop \<lparr>operators = ops, postfix = out\<rparr> (L @ [op] # R) =
     Inr \<lparr>operators = (T2 @ [op]) @ ops, postfix = out @ spaced (X1 @ map (\<lambda>c. [c]) T1 @ X2)\<rparr>"
    using l tok r by (simp add: convert_loop_append)
  have post: "(X1 @ map (\<lambda>c. [c]) T1 @ X2) @ map (\<lambda>c. [c]) (T2 @ [op]) = PL @ PR @ [[op]]"
    using x1 x2 by simp
  have tops: "\<forall>c\<in>set (T2 @ [op]). int (prec op) \<le> precedence c \<and> c \<noteq> CHR ''(''"
  proof
    fix c
    assume "c \<in> set (T2 @ [op])"
    then consider "c \<in> set T2" | "c = op" by auto
    then show "int (prec op) \<le> precedence c \<and> c \<noteq> CHR ''(''"
    proof cases
      case 1
      with t2 show ?thesis by fastforce
    next
      case 2
      with is_op_facts(4,7) [OF op] show ?thesis by simp
    qed
  qed
  from run post tops
  show "\<exists>T X. convert_loop \<lparr>operators = ops, postfix = out\<rparr> (L @ [op] # R) =
           Inr \<lparr>operators = T @ ops, postfix = out @ spaced X\<rparr> \<and>
         X @ map (\<lambda>c. [c]) T = PL @ PR @ [[op]] \<and>
         (\<forall>c\<in>set T. int (prec op) \<le> precedence c \<and> c \<noteq> CHR ''('')"
    by blast
qed

lemma conv_paren:
  assumes B: "conv_ok q B P"
  shows "conv_ok p (''('' # B @ ['')'']) P"
  unfolding conv_ok_def
proof (intro allI impI)
  fix ops out
  have "\<exists>T X. convert_loop \<lparr>operators = CHR ''('' # ops, postfix = out\<rparr> B =
        Inr \<lparr>operators = T @ CHR ''('' # ops, postfix = out @ spaced X\<rparr> \<and>
      X @ map (\<lambda>c. [c]) T = P \<and> (\<forall>c\<in>set T. int q \<le> precedence c \<and> c \<noteq> CHR ''('')"
    using B [unfolded conv_ok_def, rule_format, of "CHR ''('' # ops" out] by simp
  then obtain T X where b: "convert_loop \<lparr>operators = CHR ''('' # ops, postfix = out\<rparr> B =
        Inr \<lparr>operators = T @ CHR ''('' # ops, postfix = out @ spaced X\<rparr>"
    and x: "X @ map (\<lambda>c. [c]) T = P" and t: "\<forall>c\<in>set T. int q \<le> precedence c \<and> c \<noteq> CHR ''(''"
    by blast
  have all: "\<forall>c\<in>set T. c \<noteq> CHR ''(''" using t by blast
  have close: "convert_token \<lparr>operators = T @ CHR ''('' # ops, postfix = out @ spaced X\<rparr> '')'' =
      Inr \<lparr>operators = ops, postfix = out @ spaced (X @ map (\<lambda>c. [c]) T)\<rparr>"
    using stack_stop [OF all, of "CHR ''('' # ops"]
    by (simp add: convert_token_def pop_ops_eq calc_simps)
  have "convert_loop \<lparr>operators = ops, postfix = out\<rparr> (''('' # B @ ['')'']) =
      Inr \<lparr>operators = [] @ ops, postfix = out @ spaced P\<rparr>"
    using b close x by (simp add: convert_loop_append convert_token_def calc_simps)
  then show "\<exists>T X. convert_loop \<lparr>operators = ops, postfix = out\<rparr> (''('' # B @ ['')'']) =
           Inr \<lparr>operators = T @ ops, postfix = out @ spaced X\<rparr> \<and>
         X @ map (\<lambda>c. [c]) T = P \<and> (\<forall>c\<in>set T. int p \<le> precedence c \<and> c \<noteq> CHR ''('')"
    by fastforce
qed

lemma conv_tok_expr: "wf_expr e \<Longrightarrow> conv_ok p (tok_expr p e) (post e)"
proof (induction e arbitrary: p)
  case (Lit s)
  then show ?case by (simp add: conv_lit)
next
  case (Bin op l r)
  let ?B = "tok_expr (prec op) l @ [op] # tok_expr (Suc (prec op)) r"
  from Bin.prems have op: "is_op op" and wl: "wf_expr l" and wr: "wf_expr r" by simp_all
  have body: "conv_ok (prec op) ?B (post (Bin op l r))"
    using conv_binop [OF op Bin.IH(1) [OF wl] Bin.IH(2) [OF wr]] by simp
  show ?case
  proof (rule tok_expr_Bin_cases [OF refl, where P = "\<lambda>B. conv_ok p B (post (Bin op l r))"])
    assume "\<not> prec op < p"
    then show "conv_ok p ?B (post (Bin op l r))"
      using conv_mono [OF body, of p] by simp
  next
    from body show "conv_ok p (''('' # ?B @ ['')'']) (post (Bin op l r))"
      by (rule conv_paren)
  qed
qed

text \<open>
  The shunting-yard loop of \<^verbatim>\<open>infixToPostfix\<close> turns the printed tokens of a
  well-formed expression into its postfix form: the loop writes part of it and leaves
  the rest as operators on the stack, and the final popping loop writes them in order.
\<close>

lemma convert_tok_expr:
  "wf_expr e \<Longrightarrow>
   \<exists>st. convert_loop convert_init (tok_expr 0 e) = Inr st \<and>
        postfix (pop_ops (\<lambda>_. True) st) = spaced (post e)"
proof -
  assume "wf_expr e"
  then have "conv_ok 0 (tok_expr 0 e) (post e)" by (rule conv_tok_expr)
  then have "\<exists>T X. convert_loop \<lparr>operators = [], postfix = []\<rparr> (tok_expr 0 e) =
        Inr \<lparr>operators = T @ [], postfix = [] @ spaced X\<rparr> \<and> X @ map (\<lambda>c. [c]) T = post e"
    unfolding conv_ok_def by (metis takeWhile.simps(1) empty_iff empty_set)
  then obtain T X where run: "convert_loop convert_init (tok_expr 0 e) =
        Inr \<lparr>operators = T, postfix = spaced X\<rparr>" and x: "X @ map (\<lambda>c. [c]) T = post e"
    by (auto simp: convert_init_def)
  have "postfix (pop_ops (\<lambda>_. True) \<lparr>operators = T, postfix = spaced X\<rparr>) = spaced (post e)"
    using x by (simp add: pop_ops_eq flip: x)
  with run show ?thesis by blast
qed

section \<open>Witnesses\<close>

end
