(* ===== verification/Calc_Pipeline.thy ===== *)
theory Calc_Pipeline
  imports Calc_Converter Calc_Evaluator
begin

text \<open>
  The \<^verbatim>\<open>try\<close> block of \<^verbatim>\<open>main\<close> (\<^verbatim>\<open>src/main.cpp\<close> lines 181--188): convert the line
  to postfix text, then evaluate that text; the first exception ends the run and is
  printed by the \<^verbatim>\<open>catch\<close> (theory \<open>Spec2Isabelle\<close>).
\<close>

definition calc :: "string \<Rightarrow> real result" where
  "calc expression = ebind (infixToPostfix expression) evaluatePostfix"

declare calc_def [calc_eval]

end
