(* ===== verification/Calc_Findings.thy ===== *)
theory Calc_Findings
  imports Calc_Expr Calc_Pipeline
begin

text \<open>
  Where the code accepts or computes what the specification does not intend, stated for
  every input of a shape rather than for one example. The tokenizer emits every
  character outside the number characters as a token of its own, and the validator takes
  every token that is neither a number nor a bracket for an operator. Three consequences:
  two such characters in a row are rejected, whatever surrounds them (so \<open>3 + 4\<close> is
  invalid); a character outside the five operators, a blank included, is accepted as an
  operator of precedence 0, which joins two operands into 0 (or, for a blank, into the
  right one) and, between brackets, pops the opening bracket; and an operand may follow
  an operand when a bracket separates them, the evaluator returning the last value.
\<close>

text \<open>
  The characters the program handles as operators without being written for them:
  neither number characters nor brackets nor one of the five operators. Their
  precedence is 0.
\<close>

definition zero_op :: "char \<Rightarrow> bool" where
  "zero_op c \<longleftrightarrow> \<not> numchar c \<and> c \<noteq> CHR ''('' \<and> c \<noteq> CHR '')'' \<and> \<not> is_op c"

declare zero_op_def [calc_eval]

section \<open>The tokenizer on a prefix\<close>

lemma tokens_tokenize_char: "\<exists>zs. tokens (tokenize_char st c) = tokens st @ zs"
  by (auto simp: tokenize_char_def Let_def flush_num_def)

lemma tokens_foldl: "\<exists>zs. tokens (foldl tokenize_char st cs) = tokens st @ zs"
proof (induction cs arbitrary: st)
  case Nil
  then show ?case by simp
next
  case (Cons c cs)
  obtain zs where "tokens (tokenize_char st c) = tokens st @ zs"
    using tokens_tokenize_char by blast
  moreover obtain ys where "tokens (foldl tokenize_char (tokenize_char st c) cs) = tokens (tokenize_char st c) @ ys"
    using Cons.IH by blast
  ultimately show ?case by auto
qed

text \<open>Whatever follows, the tokens read so far stay at the front of the output.\<close>

lemma tokenize_prefix:
  "\<exists>zs. tokenize (u @ v) = tokens (foldl tokenize_char tokenize_init u) @ zs"
proof -
  obtain ys where "tokens (foldl tokenize_char (foldl tokenize_char tokenize_init u) v) =
      tokens (foldl tokenize_char tokenize_init u) @ ys"
    using tokens_foldl by blast
  then show ?thesis
    by (auto simp: tokenize_def flush_num_def)
qed

text \<open>A character outside the number characters, not a unary minus, is a token of its own.\<close>

lemma tokenize_char_single:
  "\<not> numchar c \<Longrightarrow> c \<noteq> CHR ''-'' \<Longrightarrow>
   tokens (tokenize_char st c) = tokens (flush_num st) @ [[c]] \<and> num (tokenize_char st c) = [] \<and>
   lastCharWasOperator (tokenize_char st c) = (c \<noteq> CHR '')'')"
  by (simp add: tokenize_char_def Let_def numchar_def flush_num_def)

lemma tokenize_two_singles:
  assumes "\<not> numchar a" "a \<noteq> CHR ''-''" "\<not> numchar b" "b \<noteq> CHR ''-''"
  shows "\<exists>xs ys. tokenize (u @ a # b # v) = xs @ [a] # [b] # ys"
proof -
  let ?st = "foldl tokenize_char tokenize_init u"
  have a: "tokens (tokenize_char ?st a) = tokens (flush_num ?st) @ [[a]]" "num (tokenize_char ?st a) = []"
    using tokenize_char_single [OF assms(1,2)] by simp_all
  then have "tokens (flush_num (tokenize_char ?st a)) = tokens (tokenize_char ?st a)"
    by (simp add: flush_num_def)
  with a tokenize_char_single [OF assms(3,4), of "tokenize_char ?st a"]
  have "tokens (foldl tokenize_char tokenize_init (u @ [a, b])) = tokens (flush_num ?st) @ [[a], [b]]"
    by simp
  moreover obtain zs where "tokenize ((u @ [a, b]) @ v) = tokens (foldl tokenize_char tokenize_init (u @ [a, b])) @ zs"
    using tokenize_prefix by blast
  ultimately show ?thesis by auto
qed

section \<open>The validator on two operators in a row\<close>

text \<open>
  A token the validator takes for an operator, followed by one it takes for an operator
  or by a closing bracket, is rejected from any state.
\<close>

lemma validate_op_then_op:
  assumes a: "\<not> isNumber s" "s \<noteq> ''(''" "s \<noteq> '')''" and b: "\<not> isNumber t \<or> t = '')''" "t \<noteq> ''(''"
  shows "validate_loop st (s # t # ys) = None"
proof (cases "validate_token st s")
  case None
  then show ?thesis by simp
next
  case (Some st')
  with a have "lastTokenWasOperator st'"
    by (auto simp: validate_token_def split: if_splits)
  with b have "validate_token st' t = None"
    by (auto simp: validate_token_def Let_def)
  with Some show ?thesis by simp
qed

lemma validate_reject_inside:
  "(\<And>st. validate_loop st ys = None) \<Longrightarrow> \<not> validateExpression (xs @ ys)"
  by (simp add: validateExpression_def validate_loop_append split: option.splits)


section \<open>Operators of precedence 0\<close>

lemma zero_op_facts:
  assumes "zero_op c"
  shows "precedence c = 0" "\<not> is_digit c" "\<not> isNumber [c]" "c \<noteq> CHR ''(''" "c \<noteq> CHR '')''"
    "c \<noteq> CHR ''-''" "applyOp a b c = Inr 0"
proof -
  show "precedence c = 0" "c \<noteq> CHR ''(''" "c \<noteq> CHR '')''" "c \<noteq> CHR ''-''" "applyOp a b c = Inr 0"
    using assms by (auto simp: zero_op_def is_op_def precedence_def applyOp_def)
  show "\<not> is_digit c" using assms by (simp add: zero_op_def numchar_def)
  then show "\<not> isNumber [c]" by (rule single_nondigit_not_number)
qed

text \<open>Every character binds at least as strongly as one of precedence 0: its popping loop empties the stack.\<close>

lemma pop_zero_all: "precedence c = 0 \<Longrightarrow> (\<lambda>t. precedence c \<le> precedence t) = (\<lambda>_. True)"
  using precedence_range by auto

lemma tok_expr_1: "wf_expr e \<Longrightarrow> tok_expr 1 e = tok_expr 0 e"
  by (cases e) (auto simp: Let_def is_op_facts)

text \<open>The printed operands joined by a character that is no number character nor \<open>)\<close>.\<close>

lemma sep_join:
  assumes L: "sep_ok True False L" "fst (sep_after True False L) = False"
    and R: "sep_ok True False R" "fst (sep_after True False R) = False"
    and c: "\<not> numchar c" "c \<noteq> CHR '')''"
  shows "sep_ok True False (L @ [c] # R) \<and> fst (sep_after True False (L @ [c] # R)) = False"
proof -
  obtain pl where aL: "sep_after True False L = (False, pl)"
    using L(2) by (cases "sep_after True False L") auto
  have "\<not> lexeme [c]" using c(1) by (simp add: lexeme_def)
  then show ?thesis
    by (simp add: sep_ok_append sep_after_append aL L(1) R c)
qed

lemma operand_join:
  assumes L: "operand_ok L" and R: "operand_ok R"
    and c: "\<not> isNumber [c]" "c \<noteq> CHR ''(''" "c \<noteq> CHR '')''"
  shows "operand_ok (L @ [c] # R)"
  unfolding operand_ok_def
proof (intro allI impI)
  fix st :: vstate
  assume e: "lastTokenWasOperator st" and d: "0 \<le> openBrackets st"
  let ?st1 = "st\<lparr>lastTokenWasOperator := False, lastTokenWasOpeningBracket := False\<rparr>"
  let ?st2 = "st\<lparr>lastTokenWasOperator := True, lastTokenWasOpeningBracket := False\<rparr>"
  have "validate_token ?st1 [c] = Some ?st2"
    using c by (simp add: validate_token_def)
  moreover have "validate_loop ?st2 R = Some ?st1"
    using R d by (simp add: operand_ok_def)
  ultimately show "validate_loop st (L @ [c] # R) = Some ?st1"
    using L e d by (simp add: operand_ok_def validate_loop_append)
qed

lemma operand_valid: "operand_ok B \<Longrightarrow> validateExpression B"
  by (simp add: operand_ok_def validateExpression_def validate_init_def)

text \<open>
  Reading \<open>L c R\<close> for a character \<open>c\<close> of precedence 0: \<open>c\<close> pops every operator
  below it, the stack \<open>ops\<close> it started from included (brackets too), and the
  operators of \<open>R\<close> stay above it.
\<close>

lemma conv_okD:
  "conv_ok p B P \<Longrightarrow> \<forall>x\<in>set (takeWhile (\<lambda>x. x \<noteq> CHR ''('') ops). precedence x < int p \<Longrightarrow>
   \<exists>T X. convert_loop \<lparr>operators = ops, postfix = out\<rparr> B =
           Inr \<lparr>operators = T @ ops, postfix = out @ spaced X\<rparr> \<and>
         X @ map (\<lambda>c. [c]) T = P \<and> (\<forall>c\<in>set T. int p \<le> precedence c \<and> c \<noteq> CHR ''('')"
  unfolding conv_ok_def by blast

lemma conv_zero:
  assumes L: "conv_ok 0 L PL" and R: "conv_ok 1 R PR"
    and c: "precedence c = 0" "\<not> isNumber [c]" "c \<noteq> CHR ''(''" "c \<noteq> CHR '')''"
    and ops: "\<forall>x\<in>set (takeWhile (\<lambda>x. x \<noteq> CHR ''('') ops). precedence x < 0"
  shows "\<exists>T X. convert_loop \<lparr>operators = ops, postfix = out\<rparr> (L @ [c] # R) =
           Inr \<lparr>operators = T @ [c], postfix = out @ spaced (PL @ map (\<lambda>x. [x]) ops @ X)\<rparr> \<and>
         X @ map (\<lambda>x. [x]) T = PR \<and> (\<forall>x\<in>set T. x \<noteq> CHR ''('')"
proof -
  from conv_okD [OF L, of ops out] ops obtain T1 X1 where
    l: "convert_loop \<lparr>operators = ops, postfix = out\<rparr> L =
        Inr \<lparr>operators = T1 @ ops, postfix = out @ spaced X1\<rparr>" and x1: "X1 @ map (\<lambda>x. [x]) T1 = PL"
    by auto
  let ?out1 = "out @ spaced (PL @ map (\<lambda>x. [x]) ops)"
  have pop: "pop_ops (\<lambda>t. precedence c \<le> precedence t) \<lparr>operators = T1 @ ops, postfix = out @ spaced X1\<rparr> =
      \<lparr>operators = [], postfix = ?out1\<rparr>"
    unfolding pop_zero_all [OF c(1)] pop_ops_eq by (simp flip: x1)
  have tok: "convert_token \<lparr>operators = T1 @ ops, postfix = out @ spaced X1\<rparr> [c] =
      Inr \<lparr>operators = [c], postfix = ?out1\<rparr>"
    using c(2-4) by (simp add: convert_token_def pop)
  have "\<forall>x\<in>set (takeWhile (\<lambda>x. x \<noteq> CHR ''('') [c]). precedence x < int 1"
    using c by simp
  from conv_okD [OF R this, of ?out1] obtain T2 X2 where
    r: "convert_loop \<lparr>operators = [c], postfix = ?out1\<rparr> R =
        Inr \<lparr>operators = T2 @ [c], postfix = ?out1 @ spaced X2\<rparr>"
    and x2: "X2 @ map (\<lambda>x. [x]) T2 = PR" and t2: "\<forall>x\<in>set T2. x \<noteq> CHR ''(''"
    by auto
  from l tok r have "convert_loop \<lparr>operators = ops, postfix = out\<rparr> (L @ [c] # R) =
      Inr \<lparr>operators = T2 @ [c], postfix = out @ spaced (PL @ map (\<lambda>x. [x]) ops @ X2)\<rparr>"
    by (simp add: convert_loop_append)
  with x2 t2 show ?thesis by blast
qed

text \<open>Splitting at blanks: printed words come back, a blank token vanishes.\<close>

lemma split_ws_spaced:
  "\<forall>t\<in>set ts. t \<noteq> [] \<and> list_all (\<lambda>c. \<not> is_space c) t \<Longrightarrow> split_ws [] (spaced ts @ r) = ts @ split_ws [] r"
proof (induction ts)
  case Nil
  then show ?case by simp
next
  case (Cons t ts)
  then have "split_ws [] (t @ CHR '' '' # spaced ts @ r) = t # split_ws [] (spaced ts @ r)"
    by (simp add: split_ws_word is_space_def)
  with Cons show ?case by simp
qed

lemma words_spaced_last:
  "\<forall>t\<in>set ts. t \<noteq> [] \<and> list_all (\<lambda>c. \<not> is_space c) t \<Longrightarrow>
   words (spaced (ts @ [[c]])) = ts @ (if is_space c then [] else [[c]])"
  by (simp add: words_def split_ws_spaced is_space_def)

text \<open>An operand printed as an atom (context precedence 4, above every operator) leaves no operator on the stack.\<close>

lemma precedence_lt4: "precedence c < 4"
  by (simp add: precedence_def)

lemma conv_atom:
  assumes B: "conv_ok 4 B P"
  shows "convert_loop \<lparr>operators = ops, postfix = out\<rparr> B = Inr \<lparr>operators = ops, postfix = out @ spaced P\<rparr>"
proof -
  have "\<forall>x\<in>set (takeWhile (\<lambda>x. x \<noteq> CHR ''('') ops). precedence x < int 4"
    using precedence_lt4 by simp
  from conv_okD [OF B this, of out] obtain T X where
    r: "convert_loop \<lparr>operators = ops, postfix = out\<rparr> B = Inr \<lparr>operators = T @ ops, postfix = out @ spaced X\<rparr>"
    and x: "X @ map (\<lambda>c. [c]) T = P" and t: "\<forall>c\<in>set T. int 4 \<le> precedence c \<and> c \<noteq> CHR ''(''"
    by blast
  have "T = []"
  proof (cases T)
    case (Cons c r)
    with t precedence_lt4 [of c] show ?thesis by simp
  qed simp
  with r x show ?thesis by simp
qed

lemma paren_any:
  assumes B: "operand_ok B" and d: "0 \<le> openBrackets st"
  shows "validate_loop st (''('' # B @ ['')'']) =
    Some (st\<lparr>lastTokenWasOperator := False, lastTokenWasOpeningBracket := False\<rparr>)"
proof -
  let ?st1 = "st\<lparr>openBrackets := openBrackets st + 1, lastTokenWasOperator := True,
                 lastTokenWasOpeningBracket := True\<rparr>"
  have "validate_token st ''('' = Some ?st1"
    by (simp add: validate_token_def)
  moreover have "validate_loop ?st1 B =
      Some (?st1\<lparr>lastTokenWasOperator := False, lastTokenWasOpeningBracket := False\<rparr>)"
    using B d by (simp add: operand_ok_def)
  ultimately show ?thesis
    using d by (simp add: validate_loop_append validate_token_def Let_def)
qed

lemma sep_open: "sep_ok f pl (''('' # xs) \<longleftrightarrow> sep_ok True False xs"
  by (simp add: calc_simps)

lemma eval_two:
  "wf_expr e1 \<Longrightarrow> wf_expr e2 \<Longrightarrow>
   eval_loop vs (post e1 @ post e2 @ tl_ts) =
     ebind (aval e1) (\<lambda>a. ebind (aval e2) (\<lambda>b. eval_loop (b # a # vs) tl_ts))"
  by (simp add: eval_loop_append eval_loop_post ebind_assoc)

lemma post_two_printable:
  "wf_expr e1 \<Longrightarrow> wf_expr e2 \<Longrightarrow> \<forall>t\<in>set (post e1 @ post e2). t \<noteq> [] \<and> list_all (\<lambda>c. \<not> is_space c) t"
  using post_printable by auto

lemma calc_postfix:
  "infixToPostfix s = Inr p \<Longrightarrow> calc s = evaluatePostfix p"
  by (simp add: calc_def)

lemma digit_number:
  "is_digit d \<Longrightarrow> isNumber [d] \<and> stod [d] = Inr (real (digit_val d))"
proof -
  assume d: "is_digit d"
  have "digit_val d < 10" using d by (auto simp: is_digit_def digit_val_def)
  then have "real (digits_val [d]) < 2 ^ 1024 - 2 ^ 970" by (simp add: digits_val_def)
  with d stod_digits [of "[d]"] show ?thesis by (simp add: digits_val_def)
qed

lemma numchars_lexeme: "list_all numchar t \<Longrightarrow> t \<noteq> [] \<Longrightarrow> lexeme t"
  by (cases t) (auto simp: lexeme_def calc_simps)

lemma sep_after_close: "sep_after f pl (xs @ ['')'']) = (False, False)"
  by (simp add: sep_after_append calc_simps)

lemma numchars_not_paren: "list_all numchar t \<Longrightarrow> t \<noteq> ''('' \<and> t \<noteq> '')''"
  by (auto simp: calc_simps)

section \<open>Two operator characters in a row\<close>

text \<open>
  C30: two characters in a row that are not number characters, the first neither a
  bracket nor a minus, the second neither an opening bracket nor a minus, make any input
  invalid: the tokenizer emits each as a token, the validator reads the first as an
  operator and rejects the second. A blank is such a character, so the specification's
  own example \<open>3 + 4\<close> is rejected, as is \<open>3++4\<close>.
\<close>

theorem adjacent_operator_chars_rejected:
  assumes a: "\<not> numchar a" "a \<noteq> CHR ''(''" "a \<noteq> CHR '')''" "a \<noteq> CHR ''-''"
    and b: "\<not> numchar b" "b \<noteq> CHR ''(''" "b \<noteq> CHR ''-''"
  shows "infixToPostfix (u @ a # b # v) = Inl InvalidExpression"
proof -
  obtain xs ys where tk: "tokenize (u @ a # b # v) = xs @ [a] # [b] # ys"
    using tokenize_two_singles [OF a(1,4) b(1,3)] by blast
  have "\<not> is_digit a" "\<not> is_digit b" using a(1) b(1) by (simp_all add: numchar_def)
  then have "\<not> isNumber [a]" "\<not> isNumber [b]" by (simp_all add: single_nondigit_not_number)
  with a b have "validate_loop st ([a] # [b] # ys) = None" for st
    by (intro validate_op_then_op) auto
  then have "\<not> validateExpression (xs @ [a] # [b] # ys)"
    by (rule validate_reject_inside)
  with tk show ?thesis
    by (simp add: infixToPostfix_def)
qed

section \<open>A character outside the five operators is an operator of precedence 0\<close>

text \<open>
  C31: any character that is neither a number character, a bracket nor one of the five
  operators, written between two well-formed expressions, is accepted: it becomes an
  operator of precedence 0, so both sides are evaluated first, and \<^verbatim>\<open>applyOp\<close>'s
  default gives 0 for it; a blank instead vanishes from the postfix text and the
  evaluator returns the right operand, ignoring the left one (\<open>3a4\<close> is 0, \<open>3 4\<close> is 4).
\<close>

theorem zero_op_joins_operands:
  assumes e1: "wf_expr e1" and e2: "wf_expr e2" and c: "zero_op c"
  shows "calc (concat (tok_expr 0 e1) @ c # concat (tok_expr 0 e2)) =
         ebind (aval e1) (\<lambda>_. ebind (aval e2) (\<lambda>b. Inr (if is_space c then b else 0)))"
proof -
  note cf = zero_op_facts [OF c]
  let ?ts = "tok_expr 0 e1 @ [c] # tok_expr 0 e2"
  have s: "concat (tok_expr 0 e1) @ c # concat (tok_expr 0 e2) = concat ?ts" by simp
  have "sep_ok True False ?ts"
    using sep_join [OF conjunct1 [OF sep_tok_expr [OF e1]] conjunct2 [OF sep_tok_expr [OF e1]]
        conjunct1 [OF sep_tok_expr [OF e2]] conjunct2 [OF sep_tok_expr [OF e2]]] c
    by (simp add: zero_op_def)
  then have tk: "tokenize (concat ?ts) = ?ts" by (rule tokenize_sep_ok)
  have val: "validateExpression ?ts"
    by (rule operand_valid, rule operand_join) (simp_all add: operand_tok_expr e1 e2 cf)
  have R: "conv_ok 1 (tok_expr 0 e2) (post e2)"
    using conv_tok_expr [OF e2, of 1] tok_expr_1 [OF e2] by simp
  from conv_zero [OF conv_tok_expr [OF e1] R cf(1,3-5), of "[]" "[]"] obtain T X where
    run: "convert_loop convert_init ?ts = Inr \<lparr>operators = T @ [c], postfix = spaced (post e1 @ X)\<rparr>"
    and x: "X @ map (\<lambda>x. [x]) T = post e2"
    by (auto simp: convert_init_def)
  have "infixToPostfix (concat ?ts) = Inr (spaced ((post e1 @ post e2) @ [[c]]))"
    using tk val run by (simp add: infixToPostfix_def pop_ops_eq flip: x)
  then have "calc (concat ?ts) = evaluatePostfix (spaced ((post e1 @ post e2) @ [[c]]))"
    by (rule calc_postfix)
  also have "\<dots> = ebind (eval_loop [] (post e1 @ post e2 @ (if is_space c then [] else [[c]])))
                    (\<lambda>vs. case vs of [] \<Rightarrow> Inl EmptyStackAccess | v # _ \<Rightarrow> Inr v)"
    using words_spaced_last [OF post_two_printable [OF e1 e2]] by (simp add: evaluatePostfix_def)
  also have "\<dots> = ebind (aval e1) (\<lambda>_. ebind (aval e2) (\<lambda>b. Inr (if is_space c then b else 0)))"
    using cf by (simp add: eval_two [OF e1 e2] ebind_assoc eval_token_def)
  finally show ?thesis by (simp only: s)
qed

section \<open>Such a character between brackets pops an empty stack\<close>

text \<open>
  C5: the same character between two well-formed expressions inside brackets passes the
  validator, but its popping loop (line 137, \<open>precedence(top) >= 0\<close>) removes the
  opening bracket too, and the closing bracket's \<^verbatim>\<open>operators.pop()\<close> (line 135) then
  finds the stack empty: undefined behaviour in C++, on \<open>(3 4)\<close> or \<open>(1a2)\<close>.
\<close>

theorem zero_op_in_brackets_pops_empty:
  assumes e1: "wf_expr e1" and e2: "wf_expr e2" and c: "zero_op c"
  shows "validateExpression (tokenize (''('' @ concat (tok_expr 0 e1) @ c # concat (tok_expr 0 e2) @ '')'')) \<and>
         infixToPostfix (''('' @ concat (tok_expr 0 e1) @ c # concat (tok_expr 0 e2) @ '')'') = Inl EmptyStackAccess"
proof -
  note cf = zero_op_facts [OF c]
  let ?b = "tok_expr 0 e1 @ [c] # tok_expr 0 e2"
  let ?ts = "''('' # ?b @ ['')'']"
  have s: "''('' @ concat (tok_expr 0 e1) @ c # concat (tok_expr 0 e2) @ '')'' = concat ?ts" by simp
  have "sep_ok True False ?b \<and> fst (sep_after True False ?b) = False"
    using sep_join [OF conjunct1 [OF sep_tok_expr [OF e1]] conjunct2 [OF sep_tok_expr [OF e1]]
        conjunct1 [OF sep_tok_expr [OF e2]] conjunct2 [OF sep_tok_expr [OF e2]]] c
    by (simp add: zero_op_def)
  then have "sep_ok True False ?ts" by (intro conjunct1 [OF sep_paren]) simp_all
  then have tk: "tokenize (concat ?ts) = ?ts" by (rule tokenize_sep_ok)
  have val: "validateExpression ?ts"
    by (rule operand_valid, rule operand_paren, rule operand_join) (simp_all add: operand_tok_expr e1 e2 cf)
  have R: "conv_ok 1 (tok_expr 0 e2) (post e2)"
    using conv_tok_expr [OF e2, of 1] tok_expr_1 [OF e2] by simp
  from conv_zero [OF conv_tok_expr [OF e1] R cf(1,3-5), of "[CHR ''('']" "[]"] obtain T X where
    run: "convert_loop \<lparr>operators = [CHR ''(''], postfix = []\<rparr> ?b =
      Inr \<lparr>operators = T @ [c], postfix = spaced (post e1 @ [''(''] @ X)\<rparr>"
    and t: "\<forall>x\<in>set T. x \<noteq> CHR ''(''"
    by auto
  have "\<forall>x\<in>set (T @ [c]). x \<noteq> CHR ''(''" using t cf by simp
  then have "dropWhile (\<lambda>x. x \<noteq> CHR ''('') (T @ [c]) = []" by simp
  then have t1: "convert_token \<lparr>operators = T @ [c], postfix = spaced (post e1 @ [''(''] @ X)\<rparr> '')'' =
      Inl EmptyStackAccess"
    by (simp add: convert_token_def pop_ops_eq calc_simps)
  have t0: "convert_token convert_init ''('' = Inr \<lparr>operators = [CHR ''(''], postfix = []\<rparr>"
    by (simp add: convert_init_def convert_token_def calc_simps)
  have "convert_loop convert_init ?ts = Inl EmptyStackAccess"
    by (simp only: convert_loop.simps t0 ebind_Inr convert_loop_append [of _ ?b] run t1 ebind_Inl)
  with tk val show ?thesis
    by (simp add: s infixToPostfix_def)
qed

section \<open>An operand after an operand\<close>

text \<open>
  C32: an operand may follow an operand when an opening bracket separates them: the
  validator's \<open>(\<close> branch (line 82) does not ask for an operator before it. For every two
  well-formed expressions, the first printed as an atom and the second in brackets, the
  juxtaposition is accepted, and the evaluator, which returns the top of the value stack
  without checking its depth (line 172), yields the value of the second after computing
  the first: \<open>3(4)\<close> is 4, where the specification asks for a validation error.
\<close>

theorem juxtaposition_accepted:
  assumes e1: "wf_expr e1" and e2: "wf_expr e2"
  shows "validateExpression (tokenize (concat (tok_expr 4 e1) @ ''('' @ concat (tok_expr 0 e2) @ '')'')) \<and>
         calc (concat (tok_expr 4 e1) @ ''('' @ concat (tok_expr 0 e2) @ '')'') = ebind (aval e1) (\<lambda>_. aval e2)"
proof -
  let ?a = "tok_expr 4 e1" and ?b = "''('' # tok_expr 0 e2 @ ['')'']"
  have s: "concat ?a @ ''('' @ concat (tok_expr 0 e2) @ '')'' = concat (?a @ ?b)" by simp
  obtain pl where aA: "sep_after True False ?a = (False, pl)"
    using conjunct2 [OF sep_tok_expr [OF e1, of 4]] by (cases "sep_after True False ?a") auto
  have "sep_ok True False ?b"
    using sep_paren [OF conjunct1 [OF sep_tok_expr [OF e2, of 0]] conjunct2 [OF sep_tok_expr [OF e2, of 0]]]
    by blast
  then have "sep_ok False pl ?b" by (simp only: sep_open)
  then have "sep_ok True False (?a @ ?b)"
    unfolding sep_ok_append aA fst_conv snd_conv using conjunct1 [OF sep_tok_expr [OF e1, of 4]] by blast
  then have tk: "tokenize (concat (?a @ ?b)) = ?a @ ?b" by (rule tokenize_sep_ok)
  have "validate_loop validate_init ?a =
      Some (validate_init\<lparr>lastTokenWasOperator := False, lastTokenWasOpeningBracket := False\<rparr>)"
    using operand_tok_expr [OF e1, of 4] by (simp add: operand_ok_def validate_init_def)
  then have val: "validateExpression (?a @ ?b)"
    using paren_any [OF operand_tok_expr [OF e2, of 0]]
    by (simp add: validateExpression_def validate_loop_append validate_init_def)
  have "convert_loop convert_init (?a @ ?b) = Inr \<lparr>operators = [], postfix = spaced (post e1) @ spaced (post e2)\<rparr>"
    using conv_atom [OF conv_tok_expr [OF e1, of 4]] conv_atom [OF conv_paren [OF conv_tok_expr [OF e2, of 0]]]
    by (simp add: convert_init_def convert_loop_append)
  with tk val have "infixToPostfix (concat (?a @ ?b)) = Inr (spaced (post e1 @ post e2))"
    by (simp add: infixToPostfix_def pop_ops_eq)
  then have "calc (concat (?a @ ?b)) = evaluatePostfix (spaced (post e1 @ post e2))"
    by (rule calc_postfix)
  also have "\<dots> = ebind (aval e1) (\<lambda>_. aval e2)"
    using words_spaced [OF post_two_printable [OF e1 e2]] eval_two [OF e1 e2, of "[]" "[]"]
    by (simp add: evaluatePostfix_def ebind_assoc)
  finally show ?thesis using tk val by (simp only: s)
qed

section \<open>A malformed number is an operator\<close>

text \<open>
  C33: a run of digits and points that is not a number (two points, or no digit) is
  taken for an operator: between two bracketed well-formed expressions it is accepted,
  the converter pushes its first character as an operator of precedence 0, and the
  evaluator reads that character back, as the number it is when it is a digit, or as an
  operator with value 0 when it is the point. So \<open>(2)1.2.3(4)\<close> evaluates to 1, where
  the specification asks for a number parse error.
\<close>

theorem malformed_number_as_operator:
  assumes e1: "wf_expr e1" and e2: "wf_expr e2"
    and t: "list_all numchar t" "t \<noteq> []" "\<not> isNumber t"
  shows "calc (''('' @ concat (tok_expr 0 e1) @ '')'' @ t @ ''('' @ concat (tok_expr 0 e2) @ '')'') =
         ebind (aval e1) (\<lambda>_. ebind (aval e2) (\<lambda>_.
           Inr (if is_digit (hd t) then real (digit_val (hd t)) else 0)))"
proof -
  let ?A = "''('' # tok_expr 0 e1 @ ['')'']" and ?B = "''('' # tok_expr 0 e2 @ ['')'']"
  let ?d = "hd t"
  have s: "''('' @ concat (tok_expr 0 e1) @ '')'' @ t @ ''('' @ concat (tok_expr 0 e2) @ '')'' =
      concat (?A @ t # ?B)" by simp
  have sA: "sep_ok True False ?A"
    using sep_paren [OF conjunct1 [OF sep_tok_expr [OF e1, of 0]] conjunct2 [OF sep_tok_expr [OF e1, of 0]]]
    by blast
  have "sep_ok True False ?B"
    using sep_paren [OF conjunct1 [OF sep_tok_expr [OF e2, of 0]] conjunct2 [OF sep_tok_expr [OF e2, of 0]]]
    by blast
  then have "sep_ok False True ?B" by (simp only: sep_open)
  moreover have "lexeme t" using t(1,2) by (rule numchars_lexeme)
  moreover have "hd t \<noteq> CHR ''-''" using t(1,2) by (cases t) (auto simp: calc_simps)
  ultimately have "sep_ok False False (t # ?B)" by simp
  moreover have aA: "sep_after True False ?A = (False, False)"
    using sep_after_close [of True False "''('' # tok_expr 0 e1"] by simp
  ultimately have "sep_ok True False (?A @ t # ?B)"
    unfolding sep_ok_append [of True False ?A "t # ?B"] aA fst_conv snd_conv using sA by blast
  then have tk: "tokenize (concat (?A @ t # ?B)) = ?A @ t # ?B" by (rule tokenize_sep_ok)
  have np: "t \<noteq> ''(''" "t \<noteq> '')''" using numchars_not_paren [OF t(1)] by simp_all
  let ?st1 = "validate_init\<lparr>lastTokenWasOperator := False, lastTokenWasOpeningBracket := False\<rparr>"
  let ?st2 = "?st1\<lparr>lastTokenWasOperator := True\<rparr>"
  have v1: "validate_loop validate_init ?A = Some ?st1"
    using paren_any [OF operand_tok_expr [OF e1, of 0], of validate_init] by (simp add: validate_init_def)
  have vt: "validate_token ?st1 t = Some ?st2"
    using np t(3) by (simp add: validate_token_def validate_init_def)
  have "validate_loop validate_init (?A @ t # ?B) = validate_loop ?st1 (t # ?B)"
    unfolding validate_loop_append [of _ ?A "t # ?B"] v1 by (simp only: option.case)
  also have "\<dots> = validate_loop ?st2 ?B"
    using vt by (simp only: validate_loop.simps(2) option.case)
  also have "\<dots> = Some ?st1"
    using paren_any [OF operand_tok_expr [OF e2, of 0], of ?st2] by (simp add: validate_init_def)
  finally have val: "validateExpression (?A @ t # ?B)"
    by (simp add: validateExpression_def validate_init_def)
  have ct: "convert_token \<lparr>operators = [], postfix = spaced (post e1)\<rparr> t =
      Inr \<lparr>operators = [?d], postfix = spaced (post e1)\<rparr>"
    using np t(2,3) by (cases t) (simp_all add: convert_token_def pop_ops_eq)
  have c1: "convert_loop convert_init ?A = Inr \<lparr>operators = [], postfix = spaced (post e1)\<rparr>"
    using conv_atom [OF conv_paren [OF conv_tok_expr [OF e1, of 0]], of "[]" "[]"]
    by (simp add: convert_init_def)
  have "convert_loop convert_init (?A @ t # ?B) = convert_loop \<lparr>operators = [], postfix = spaced (post e1)\<rparr> (t # ?B)"
    unfolding convert_loop_append [of _ ?A "t # ?B"] c1 by (simp only: ebind_Inr)
  also have "\<dots> = convert_loop \<lparr>operators = [?d], postfix = spaced (post e1)\<rparr> ?B"
    using ct by (simp only: convert_loop.simps(2) ebind_Inr)
  also have "\<dots> = Inr \<lparr>operators = [?d], postfix = spaced (post e1) @ spaced (post e2)\<rparr>"
    by (rule conv_atom [OF conv_paren [OF conv_tok_expr [OF e2, of 0]]])
  finally have "convert_loop convert_init (?A @ t # ?B) =
      Inr \<lparr>operators = [?d], postfix = spaced (post e1) @ spaced (post e2)\<rparr>" .
  with tk val have "infixToPostfix (concat (?A @ t # ?B)) = Inr (spaced ((post e1 @ post e2) @ [[?d]]))"
    by (simp add: infixToPostfix_def pop_ops_eq)
  then have "calc (concat (?A @ t # ?B)) = evaluatePostfix (spaced ((post e1 @ post e2) @ [[?d]]))"
    by (rule calc_postfix)
  also have "\<dots> = ebind (eval_loop [] (post e1 @ post e2 @ [[?d]]))
                    (\<lambda>vs. case vs of [] \<Rightarrow> Inl EmptyStackAccess | v # _ \<Rightarrow> Inr v)"
    using words_spaced_last [OF post_two_printable [OF e1 e2], of ?d] t(1,2)
    by (cases t) (simp_all add: evaluatePostfix_def numchar_not_space)
  also have "\<dots> = ebind (aval e1) (\<lambda>_. ebind (aval e2) (\<lambda>_.
           Inr (if is_digit ?d then real (digit_val ?d) else 0)))"
  proof (cases "is_digit ?d")
    case True
    then show ?thesis
      using digit_number [OF True] by (simp add: eval_two [OF e1 e2] ebind_assoc eval_token_def)
  next
    case False
    with t(1,2) have "?d = CHR ''.''" by (cases t) (auto simp: numchar_def)
    with False show ?thesis
      using single_nondigit_not_number [OF False]
      by (simp add: eval_two [OF e1 e2] ebind_assoc eval_token_def applyOp_def)
  qed
  finally show ?thesis by (simp only: s)
qed

section \<open>Witnesses\<close>

theorem adjacent_operator_chars_rejected_witness:
  "\<not> numchar CHR '' '' \<and> \<not> numchar CHR ''+'' \<and> infixToPostfix ''3 + 4'' = Inl InvalidExpression"
  using adjacent_operator_chars_rejected [of "CHR '' ''" "CHR ''+''" "''3''" "'' 4''"] by (simp add: calc_eval)

theorem zero_op_joins_operands_witness:
  "wf_expr (Lit ''3'') \<and> wf_expr (Lit ''4'') \<and> zero_op CHR ''a'' \<and> zero_op CHR '' '' \<and>
   calc ''3a4'' = Inr 0 \<and> calc ''3 4'' = Inr 4"
  using zero_op_joins_operands [of "Lit ''3''" "Lit ''4''" "CHR ''a''"]
    zero_op_joins_operands [of "Lit ''3''" "Lit ''4''" "CHR '' ''"]
  by (simp add: calc_eval)

theorem zero_op_in_brackets_pops_empty_witness:
  "wf_expr (Lit ''3'') \<and> wf_expr (Lit ''4'') \<and> zero_op CHR '' '' \<and>
   validateExpression (tokenize ''(3 4)'') \<and> infixToPostfix ''(3 4)'' = Inl EmptyStackAccess"
  using zero_op_in_brackets_pops_empty [of "Lit ''3''" "Lit ''4''" "CHR '' ''"] by (simp add: calc_eval)

theorem juxtaposition_accepted_witness:
  "wf_expr (Lit ''3'') \<and> wf_expr (Lit ''4'') \<and> validateExpression (tokenize ''3(4)'') \<and> calc ''3(4)'' = Inr 4"
  using juxtaposition_accepted [of "Lit ''3''" "Lit ''4''"] by (simp add: calc_eval)

theorem malformed_number_as_operator_witness:
  "wf_expr (Lit ''2'') \<and> wf_expr (Lit ''4'') \<and> list_all numchar ''1.2.3'' \<and> \<not> isNumber ''1.2.3'' \<and>
   calc ''(2)1.2.3(4)'' = Inr 1"
  using malformed_number_as_operator [of "Lit ''2''" "Lit ''4''" "''1.2.3''"] by (simp add: calc_eval)

end
