(* ===== verification/Calc_Safety.thy ===== *)
theory Calc_Safety
  imports Calc_Converter Calc_Evaluator
begin

text \<open>
  Why the pipeline of \<^verbatim>\<open>src/main.cpp\<close> never touches an empty stack on the inputs it is
  written for. The validator (\<^verbatim>\<open>validateExpression\<close>), the shunting-yard loop
  (\<^verbatim>\<open>infixToPostfix\<close>) and the evaluator (\<^verbatim>\<open>evaluatePostfix\<close>) are run side by side:
  \<open>safe_inv\<close> relates the validator's state to the converter's state and to the height
  the evaluator's value stack will have after reading the postfix text written so far.
  The operators waiting on the operator stack are each owed one value, and one more
  value is there whenever the validator has just read an operand.
\<close>

definition nops :: "char list \<Rightarrow> nat" where
  "nops ops = length (filter (\<lambda>c. c \<noteq> CHR ''('') ops)"

text \<open>The words the evaluator is written for: a number, or one of the five operators.\<close>

definition postfix_word :: "token \<Rightarrow> bool" where
  "postfix_word t \<longleftrightarrow> isNumber t \<or> (case t of [c] \<Rightarrow> is_op c | _ \<Rightarrow> False)"

definition out_ok :: "token list \<Rightarrow> bool" where
  "out_ok W \<longleftrightarrow> (\<forall>t\<in>set W. t \<noteq> [] \<and> list_all (\<lambda>c. \<not> is_space c) t \<and> postfix_word t)"

definition safe_inv :: "vstate \<Rightarrow> cstate \<Rightarrow> bool" where
  "safe_inv vs cs \<longleftrightarrow>
     opens cs = openBrackets vs \<and> (\<forall>c\<in>set (operators cs). c = CHR ''('' \<or> is_op c) \<and>
     (\<exists>W h. postfix cs = spaced W \<and> out_ok W \<and> height_run 0 W = Some h \<and>
            nops (operators cs) + (if lastTokenWasOperator vs then 0 else 1) \<le> h)"

lemma safe_invI:
  "opens cs = openBrackets vs \<Longrightarrow> \<forall>c\<in>set (operators cs). c = CHR ''('' \<or> is_op c \<Longrightarrow>
   postfix cs = spaced W \<Longrightarrow> out_ok W \<Longrightarrow> height_run 0 W = Some h \<Longrightarrow>
   nops (operators cs) + (if lastTokenWasOperator vs then 0 else 1) \<le> h \<Longrightarrow> safe_inv vs cs"
  unfolding safe_inv_def by blast

lemma nops_simps [simp]:
  "nops [] = 0"
  "nops (c # cs) = (if c = CHR ''('' then nops cs else Suc (nops cs))"
  by (simp_all add: nops_def)

lemma out_ok_append [simp]: "out_ok (xs @ ys) \<longleftrightarrow> out_ok xs \<and> out_ok ys"
  by (auto simp: out_ok_def)

section \<open>Popping operators to the output\<close>

lemma pop_height:
  "\<forall>c\<in>set ps. is_op c \<Longrightarrow> length ps < h \<Longrightarrow>
   height_run h (map (\<lambda>c. [c]) ps) = Some (h - length ps)"
proof (induction ps arbitrary: h)
  case Nil
  then show ?case by simp
next
  case (Cons c ps)
  from Cons.prems have c: "\<not> isNumber [c]" "2 \<le> h"
    by (simp_all add: is_op_not_number)
  from Cons.prems have "height_run (h - 1) (map (\<lambda>c. [c]) ps) = Some (h - 1 - length ps)"
    by (intro Cons.IH) auto
  with c show ?case by simp
qed

lemma out_ok_ops: "\<forall>c\<in>set ps. is_op c \<Longrightarrow> out_ok (map (\<lambda>c. [c]) ps)"
  by (auto simp: out_ok_def postfix_word_def is_op_not_space)

lemma nops_split:
  "\<not> P CHR ''('' \<Longrightarrow> nops ops = length (takeWhile P ops) + nops (dropWhile P ops)"
proof -
  assume np: "\<not> P CHR ''(''"
  have "\<forall>c\<in>set (takeWhile P ops). c \<noteq> CHR ''(''"
    using np by (metis set_takeWhileD)
  then have "length (filter (\<lambda>c. c \<noteq> CHR ''('') (takeWhile P ops)) = length (takeWhile P ops)"
    by (simp add: filter_id_conv)
  then show ?thesis
    by (metis nops_def filter_append length_append takeWhile_dropWhile_id)
qed

text \<open>
  Popping the prefix \<open>ps\<close> of the operator stack keeps the invariant's height condition:
  the output grows by \<open>ps\<close> and the height drops by its length.
\<close>

lemma pop_keeps_height:
  assumes W: "height_run 0 W = Some h" "out_ok W" and ps: "\<forall>c\<in>set ps. is_op c"
    and le: "length ps + k + 1 \<le> h"
  shows "height_run 0 (W @ map (\<lambda>c. [c]) ps) = Some (h - length ps) \<and>
         out_ok (W @ map (\<lambda>c. [c]) ps) \<and> k + 1 \<le> h - length ps"
proof -
  have "height_run h (map (\<lambda>c. [c]) ps) = Some (h - length ps)"
    using le by (intro pop_height [OF ps]) simp
  then have "height_run 0 (W @ map (\<lambda>c. [c]) ps) = Some (h - length ps)"
    using W(1) by (simp add: height_run_append)
  moreover have "out_ok (W @ map (\<lambda>c. [c]) ps)"
    using W(2) out_ok_ops [OF ps] by simp
  moreover have "k + 1 \<le> h - length ps"
    using le by simp
  ultimately show ?thesis by blast
qed

lemma pop_prefix_ops:
  "\<forall>c\<in>set ops. c = CHR ''('' \<or> is_op c \<Longrightarrow> \<not> P CHR ''('' \<Longrightarrow> \<forall>c\<in>set (takeWhile P ops). is_op c"
  by (metis set_takeWhileD)

lemma dropWhile_ops:
  "\<forall>c\<in>set ops. c = CHR ''('' \<or> is_op c \<Longrightarrow> \<forall>c\<in>set (dropWhile P ops). c = CHR ''('' \<or> is_op c"
  by (meson set_dropWhileD)


section \<open>One token\<close>

text \<open>
  Each token the validator accepts keeps the invariant: a number adds one value, an
  opening bracket waits, a closing bracket pops the operators above its \<open>(\<close>, and an
  operator pops those that bind at least as strongly, each popped operator taking one value.
\<close>

lemma safe_step:
  assumes inv: "safe_inv vs cs" and vi: "vinv vs" and v: "validate_token vs t = Some vs'"
    and ok: "isNumber t \<or> t = ''('' \<or> t = '')'' \<or> 0 < precedence (first_char t)"
    and sh: "isNumber t \<Longrightarrow> out_ok [t]"
  shows "\<exists>cs'. convert_token cs t = Inr cs' \<and> safe_inv vs' cs'"
proof -
  from inv obtain W h where cnt: "opens cs = openBrackets vs"
    and ops: "\<forall>c\<in>set (operators cs). c = CHR ''('' \<or> is_op c"
    and W: "postfix cs = spaced W" "out_ok W" "height_run 0 W = Some h"
    and hh: "nops (operators cs) + (if lastTokenWasOperator vs then 0 else 1) \<le> h"
    unfolding safe_inv_def by blast
  from hh have h0: "nops (operators cs) \<le> h"
    by (cases "lastTokenWasOperator vs") simp_all
  consider (num) "isNumber t" | (lp) "t = ''(''" | (rp) "t = '')''"
    | (op) "\<not> isNumber t" "t \<noteq> ''(''" "t \<noteq> '')''" "0 < precedence (first_char t)"
    using ok by blast
  then show ?thesis
  proof cases
    case num
    from num have "t \<noteq> ''(''" "t \<noteq> '')''"
      using paren_not_number by auto
    with v num have g: "lastTokenWasOperator vs \<or> lastTokenWasOpeningBracket vs"
      and eq: "vs' = vs\<lparr>lastTokenWasOperator := False, lastTokenWasOpeningBracket := False\<rparr>"
      by (simp_all add: validate_token_def split: if_splits)
    from g vi have lto: "lastTokenWasOperator vs"
      by (auto simp: vinv_def)
    from eq have vs': "openBrackets vs' = openBrackets vs" "\<not> lastTokenWasOperator vs'"
      by simp_all
    let ?cs = "cs\<lparr>postfix := postfix cs @ t @ '' ''\<rparr>"
    have run: "convert_token cs t = Inr ?cs"
      using num by (simp add: convert_token_def)
    have "safe_inv vs' ?cs"
    proof (rule safe_invI)
      show "postfix ?cs = spaced (W @ [t])" using W(1) by simp
      show "out_ok (W @ [t])" using W(2) sh [OF num] by simp
      show "height_run 0 (W @ [t]) = Some (Suc h)" using W(3) num by (simp add: height_run_append)
    qed (use cnt ops hh vs' lto in simp_all)
    with run show ?thesis by blast
  next
    case lp
    from v lp have "vs' = vs\<lparr>openBrackets := openBrackets vs + 1, lastTokenWasOperator := True,
                 lastTokenWasOpeningBracket := True\<rparr>"
      by (simp add: validate_token_def)
    then have vs': "openBrackets vs' = openBrackets vs + 1" "lastTokenWasOperator vs'"
      by simp_all
    let ?cs = "cs\<lparr>operators := CHR ''('' # operators cs\<rparr>"
    have run: "convert_token cs t = Inr ?cs"
      using lp by (simp add: convert_token_def calc_simps)
    have "safe_inv vs' ?cs"
      by (rule safe_invI [where W = W and h = h]) (use W cnt ops h0 vs' in simp_all)
    with run show ?thesis by blast
  next
    case rp
    let ?P = "\<lambda>c. c \<noteq> CHR ''(''"
    let ?ps = "takeWhile ?P (operators cs)"
    from v rp have g: "\<not> (openBrackets vs - 1 < 0 \<or> lastTokenWasOperator vs)"
      and eq: "vs' = vs\<lparr>openBrackets := openBrackets vs - 1, lastTokenWasOperator := False,
                 lastTokenWasOpeningBracket := False\<rparr>"
      by (simp_all add: validate_token_def Let_def split: if_splits)
    from g have d: "1 \<le> openBrackets vs" and lto: "\<not> lastTokenWasOperator vs"
      by simp_all
    from eq have vs': "openBrackets vs' = openBrackets vs - 1" "\<not> lastTokenWasOperator vs'"
      by simp_all
    from cnt d obtain ys where dw: "dropWhile ?P (operators cs) = CHR ''('' # ys"
      and cys: "count_list ys CHR ''('' = count_list (operators cs) CHR ''('' - 1"
      using rparen_stack [of "operators cs"] by auto
    have ps: "\<forall>c\<in>set ?ps. is_op c"
      using ops by (rule pop_prefix_ops) simp
    have "nops (operators cs) = length ?ps + nops ys"
      using nops_split [of ?P "operators cs"] dw by simp
    with hh lto have le: "length ?ps + nops ys + 1 \<le> h" by simp
    have ys: "\<forall>c\<in>set ys. c = CHR ''('' \<or> is_op c"
      using dropWhile_ops [OF ops, of ?P] dw by simp
    let ?cs = "\<lparr>operators = ys, postfix = postfix cs @ spaced (map (\<lambda>c. [c]) ?ps)\<rparr>"
    have run: "convert_token cs t = Inr ?cs"
      using rp dw by (simp add: convert_token_def pop_ops_eq calc_simps)
    from pop_keeps_height [OF W(3) W(2) ps le] have "safe_inv vs' ?cs"
      using W(1) cnt cys d vs' ys by (intro safe_invI [where W = "W @ map (\<lambda>c. [c]) ?ps"]) auto
    with run show ?thesis by blast
  next
    case op
    let ?c = "first_char t"
    let ?P = "\<lambda>x. precedence ?c \<le> precedence x"
    let ?ps = "takeWhile ?P (operators cs)"
    let ?rest = "dropWhile ?P (operators cs)"
    have c: "is_op ?c" using op(4) by (rule precedence_pos_is_op)
    have np: "\<not> ?P CHR ''(''" using op(4) by (simp add: calc_simps)
    from v op have lto: "\<not> lastTokenWasOperator vs"
      and vs': "openBrackets vs' = openBrackets vs" "lastTokenWasOperator vs'"
      by (auto simp: validate_token_def split: if_splits)
    have ps: "\<forall>c\<in>set ?ps. is_op c"
      using ops np by (rule pop_prefix_ops)
    have "nops (operators cs) = length ?ps + nops ?rest"
      using np by (rule nops_split)
    with hh lto have le: "length ?ps + nops ?rest + 1 \<le> h" by simp
    have rest: "\<forall>c\<in>set (?c # ?rest). c = CHR ''('' \<or> is_op c"
      using dropWhile_ops [OF ops, of ?P] c by simp
    have crest: "count_list ?rest CHR ''('' = count_list (operators cs) CHR ''(''"
      using np by (rule count_dropWhile_keep)
    let ?cs = "\<lparr>operators = ?c # ?rest, postfix = postfix cs @ spaced (map (\<lambda>c. [c]) ?ps)\<rparr>"
    have run: "convert_token cs t = Inr ?cs"
      using op by (simp add: convert_token_def pop_ops_eq)
    from pop_keeps_height [OF W(3) W(2) ps le] have "safe_inv vs' ?cs"
      using W(1) cnt crest vs' rest is_op_not_paren [OF c]
      by (intro safe_invI [where W = "W @ map (\<lambda>c. [c]) ?ps"]) auto
    with run show ?thesis by blast
  qed
qed


section \<open>The whole token list\<close>

lemma safe_loop:
  "safe_inv vs cs \<Longrightarrow> vinv vs \<Longrightarrow> validate_loop vs ts = Some vs' \<Longrightarrow> op_tokens_ok ts \<Longrightarrow>
   \<forall>t\<in>set ts. isNumber t \<longrightarrow> out_ok [t] \<Longrightarrow>
   \<exists>cs'. convert_loop cs ts = Inr cs' \<and> safe_inv vs' cs'"
proof (induction ts arbitrary: vs cs)
  case Nil
  then show ?case by simp
next
  case (Cons t ts)
  from Cons.prems(3) obtain vs1 where v1: "validate_token vs t = Some vs1"
    and rest: "validate_loop vs1 ts = Some vs'"
    by (auto split: option.splits)
  from Cons.prems(4) have ok: "isNumber t \<or> t = ''('' \<or> t = '')'' \<or> 0 < precedence (first_char t)"
    and oks: "op_tokens_ok ts"
    by (simp_all add: op_tokens_ok_def)
  from Cons.prems(5) have sh: "isNumber t \<Longrightarrow> out_ok [t]" and shs: "\<forall>t\<in>set ts. isNumber t \<longrightarrow> out_ok [t]"
    by simp_all
  from safe_step [OF Cons.prems(1,2) v1 ok sh] obtain cs1
    where c1: "convert_token cs t = Inr cs1" and i1: "safe_inv vs1 cs1"
    by blast
  have "vinv vs1" using validate_token_inv [OF Cons.prems(2) v1] .
  from Cons.IH [OF i1 this rest oks shs] c1 show ?case by simp
qed

lemma safe_init: "safe_inv validate_init convert_init"
  by (rule safe_invI [where W = "[]" and h = 0]) (simp_all add: validate_init_def convert_init_def out_ok_def)

text \<open>A token of the tokenizer that is a number holds no blank.\<close>

lemma tokenize_number_ok: "t \<in> set (tokenize s) \<Longrightarrow> isNumber t \<Longrightarrow> out_ok [t]"
proof -
  assume t: "t \<in> set (tokenize s)" and n: "isNumber t"
  from t tokenize_inv [of s] have "tok_shape t"
    by (simp add: tokenize_def tok_inv_def list_all_iff)
  moreover have "\<not> (t = [c] \<and> \<not> numchar c)" for c
    using n single_nondigit_not_number [of c] by (auto simp: numchar_def)
  ultimately have "lexeme t"
    by (auto simp: tok_shape_def)
  then show ?thesis
    using lexeme_no_space n by (simp add: out_ok_def postfix_word_def)
qed


section \<open>The pipeline\<close>

text \<open>
  On an input whose operator tokens are the five operators, \<^verbatim>\<open>infixToPostfix\<close> either
  rejects it or writes a postfix text the evaluator reads back with at least one value
  left at the end.
\<close>

lemma infixToPostfix_safe:
  "op_tokens_ok (tokenize s) \<Longrightarrow>
   infixToPostfix s = Inl InvalidExpression \<or>
   (\<exists>W h. infixToPostfix s = Inr (spaced W) \<and> out_ok W \<and> height_run 0 W = Some h \<and> 1 \<le> h)"
proof (cases "validateExpression (tokenize s)")
  case False
  then show ?thesis by (simp add: infixToPostfix_def)
next
  case True
  assume ok: "op_tokens_ok (tokenize s)"
  from True obtain vs where run: "validate_loop validate_init (tokenize s) = Some vs"
    and d: "openBrackets vs = 0" and l: "\<not> lastTokenWasOperator vs"
    by (auto simp: validateExpression_def split: option.splits)
  have "\<forall>t\<in>set (tokenize s). isNumber t \<longrightarrow> out_ok [t]"
    using tokenize_number_ok by blast
  from safe_loop [OF safe_init vinv_init run ok this] obtain cs
    where conv: "convert_loop convert_init (tokenize s) = Inr cs" and inv: "safe_inv vs cs"
    by blast
  from inv obtain W h where cnt: "opens cs = openBrackets vs"
    and ops: "\<forall>c\<in>set (operators cs). c = CHR ''('' \<or> is_op c"
    and W: "postfix cs = spaced W" "out_ok W" "height_run 0 W = Some h"
    and hh: "nops (operators cs) + (if lastTokenWasOperator vs then 0 else 1) \<le> h"
    unfolding safe_inv_def by blast
  from cnt d have np: "\<forall>c\<in>set (operators cs). c \<noteq> CHR ''(''"
    by (auto simp: count_list_0_iff)
  with ops have ps: "\<forall>c\<in>set (operators cs). is_op c"
    by blast
  from np have "nops (operators cs) = length (operators cs)"
    by (simp add: nops_def filter_id_conv)
  with hh l have le: "length (operators cs) + 0 + 1 \<le> h"
    by simp
  let ?W = "W @ map (\<lambda>c. [c]) (operators cs)"
  have "infixToPostfix s = Inr (spaced ?W)"
    using True conv W(1) by (simp add: infixToPostfix_def pop_ops_eq)
  moreover from pop_keeps_height [OF W(3) W(2) ps le]
  have "out_ok ?W" "height_run 0 ?W = Some (h - length (operators cs))"
    "1 \<le> h - length (operators cs)"
    by simp_all
  ultimately show ?thesis
    by blast
qed

lemma evaluatePostfix_safe:
  "out_ok W \<Longrightarrow> height_run 0 W = Some h \<Longrightarrow> 1 \<le> h \<Longrightarrow> evaluatePostfix (spaced W) = Inl e \<Longrightarrow>
   e = DivisionByZero \<or> e = StodOutOfRange"
proof -
  assume W: "out_ok W" "height_run 0 W = Some h" and h: "1 \<le> h"
    and err: "evaluatePostfix (spaced W) = Inl e"
  from W(1) have w: "words (spaced W) = W"
    by (intro words_spaced) (simp add: out_ok_def)
  from W(2) have "height_run (length ([] :: real list)) W = Some h"
    by simp
  note run = eval_loop_run [OF this]
  show ?thesis
  proof (cases "eval_loop [] W")
    case (Inl e')
    with run have "e' = DivisionByZero \<or> e' = StodOutOfRange" by simp
    moreover from Inl w err have "e = e'" by (simp add: evaluatePostfix_def)
    ultimately show ?thesis by simp
  next
    case (Inr vs')
    with run have "length vs' = h" by simp
    with Inr h w err show ?thesis
      by (cases vs') (simp_all add: evaluatePostfix_def)
  qed
qed


text \<open>
  C10: the postfix text \<^verbatim>\<open>infixToPostfix\<close> writes for an input whose operator tokens are
  the five operators is a sequence of words each of which is a number or one of the five
  operators: the evaluator never meets a bracket or another character.
\<close>

theorem infixToPostfix_words:
  "op_tokens_ok (tokenize s) \<Longrightarrow> infixToPostfix s = Inr p \<Longrightarrow> \<forall>t\<in>set (words p). postfix_word t"
proof -
  assume ok: "op_tokens_ok (tokenize s)" and p: "infixToPostfix s = Inr p"
  from infixToPostfix_safe [OF ok] p obtain W where "p = spaced W" "out_ok W"
    by auto
  moreover from \<open>out_ok W\<close> have "words (spaced W) = W"
    by (intro words_spaced) (simp add: out_ok_def)
  ultimately show ?thesis
    by (simp add: out_ok_def)
qed

theorem infixToPostfix_words_witness:
  "op_tokens_ok (tokenize ''2*(3+4)'') \<and> infixToPostfix ''2*(3+4)'' = Inr ''2 3 4 + * '' \<and>
   words ''2 3 4 + * '' = [''2'', ''3'', ''4'', ''+'', ''*'']"
  using infixToPostfix_words [of "''2*(3+4)''" "''2 3 4 + * ''"]
  by (simp add: calc_eval op_tokens_ok_def)

end
