(* ===== verification/Calc_Lexer_Spec.thy ===== *)
theory Calc_Lexer_Spec
  imports Calc_Tokenizer
begin

text \<open>
  The tokenizer of the specification (section 4.1), beside the code's \<open>tokenize\<close>. The
  specification classifies each emitted token (\<open>stok\<close>: a number, an operator, an opening
  or a closing bracket) and decides a unary minus by the kind of the token emitted last;
  the code keeps the flag \<^verbatim>\<open>lastCharWasOperator\<close> instead. The two agree on every input
  without two minus signs in a row; on \<open>--\<close> after a unary position they differ.
\<close>

datatype stok = SNum string | SOp char | SLParen | SRParen

fun stok_text :: "stok \<Rightarrow> token" where
  "stok_text (SNum s) = s"
| "stok_text (SOp c) = [c]"
| "stok_text SLParen = ''(''"
| "stok_text SRParen = '')''"

definition sclassify :: "char \<Rightarrow> stok" where
  "sclassify c = (if c = CHR ''('' then SLParen else if c = CHR '')'' then SRParen else SOp c)"

text \<open>A unary-minus position: no token emitted yet, or the last one an operator or \<open>(\<close>.\<close>

definition unary_pos :: "stok list \<Rightarrow> bool" where
  "unary_pos ts = (case rev ts of
      [] \<Rightarrow> True
    | t # _ \<Rightarrow> (case t of SOp _ \<Rightarrow> True | SLParen \<Rightarrow> True | _ \<Rightarrow> False))"

record lex_state =
  stoks :: "stok list"
  pending :: string

definition lex_flush :: "lex_state \<Rightarrow> lex_state" where
  "lex_flush st = (if pending st \<noteq> [] then st\<lparr>stoks := stoks st @ [SNum (pending st)], pending := []\<rparr> else st)"

definition lex_char :: "lex_state \<Rightarrow> char \<Rightarrow> lex_state" where
  "lex_char st c =
     (if numchar c then st\<lparr>pending := pending st @ [c]\<rparr>
      else
        let st' = lex_flush st in
        if c = CHR ''-'' \<and> unary_pos (stoks st') then st'\<lparr>pending := [c]\<rparr>
        else st'\<lparr>stoks := stoks st' @ [sclassify c]\<rparr>)"

definition spec_tokenize :: "string \<Rightarrow> stok list" where
  "spec_tokenize s = stoks (lex_flush (foldl lex_char \<lparr>stoks = [], pending = []\<rparr> s))"

text \<open>Two minus signs in a row.\<close>

fun dminus :: "string \<Rightarrow> bool" where
  "dminus (a # b # r) = ((a = CHR ''-'' \<and> b = CHR ''-'') \<or> dminus (b # r))"
| "dminus _ = False"

declare sclassify_def [calc_eval] unary_pos_def [calc_eval] lex_flush_def [calc_eval]
  lex_char_def [calc_eval] spec_tokenize_def [calc_eval]

text \<open>
  The relation between the states: the same tokens and pending lexeme, and the code's
  flag says whether the specification is in a unary-minus position (after a lone
  pending minus both are, after a pending number neither).
\<close>

definition lex_rel :: "tok_state \<Rightarrow> lex_state \<Rightarrow> bool" where
  "lex_rel st ls \<longleftrightarrow> tokens st = map stok_text (stoks ls) \<and> num st = pending ls \<and>
     (if num st = [] then lastCharWasOperator st = unary_pos (stoks ls)
      else if num st = ''-'' then lastCharWasOperator st \<and> unary_pos (stoks ls)
      else \<not> lastCharWasOperator st)"

section \<open>The two tokenizers in lockstep\<close>

lemma dminus_snoc:
  "dminus (xs @ [c]) \<longleftrightarrow> dminus xs \<or> (xs \<noteq> [] \<and> last xs = CHR ''-'' \<and> c = CHR ''-'')"
  by (induction xs rule: dminus.induct) (auto simp: neq_Nil_conv)

lemma num_minus_last:
  "num (foldl tokenize_char tokenize_init xs) = ''-'' \<Longrightarrow> xs \<noteq> [] \<and> last xs = CHR ''-''"
proof (induction xs rule: rev_induct)
  case Nil
  then show ?case by (simp add: tokenize_init_def)
next
  case (snoc c xs)
  then show ?case
    by (auto simp: tokenize_char_def flush_num_def Let_def numchar_def split: if_splits)
qed

lemma unary_pos_snoc [simp]:
  "unary_pos (ts @ [t]) = (case t of SOp _ \<Rightarrow> True | SLParen \<Rightarrow> True | _ \<Rightarrow> False)"
  "unary_pos (ts @ [u, t]) = (case t of SOp _ \<Rightarrow> True | SLParen \<Rightarrow> True | _ \<Rightarrow> False)"
  by (simp_all add: unary_pos_def)

lemma stok_text_classify [simp]: "stok_text (sclassify c) = [c]"
  by (simp add: sclassify_def)

lemma unary_pos_classify [simp]:
  "(case sclassify c of SOp _ \<Rightarrow> True | SLParen \<Rightarrow> True | _ \<Rightarrow> False) = (c \<noteq> CHR '')'')"
  by (simp add: sclassify_def)

lemma lex_rel_step:
  assumes r: "lex_rel st ls" and nd: "\<not> (num st = ''-'' \<and> c = CHR ''-'')"
  shows "lex_rel (tokenize_char st c) (lex_char ls c)"
proof (cases "numchar c")
  case True
  then have "is_digit c \<or> c = CHR ''.''" and "c \<noteq> CHR ''-''"
    by (auto simp: numchar_def calc_simps)
  with r True show ?thesis
    by (auto simp: lex_rel_def tokenize_char_def lex_char_def)
next
  case False
  then have nd': "\<not> (is_digit c \<or> c = CHR ''.'')"
    by (simp add: numchar_def)
  consider (e) "num st = []" | (m) "num st = ''-''" | (d) "num st \<noteq> []" "num st \<noteq> ''-''"
    by blast
  then show ?thesis
  proof cases
    case e
    with r nd' False show ?thesis
      by (auto simp: lex_rel_def tokenize_char_def lex_char_def flush_num_def lex_flush_def Let_def)
  next
    case m
    with nd have "c \<noteq> CHR ''-''" by simp
    with r m nd' False show ?thesis
      by (auto simp: lex_rel_def tokenize_char_def lex_char_def flush_num_def lex_flush_def Let_def)
  next
    case d
    with r nd' False show ?thesis
      by (auto simp: lex_rel_def tokenize_char_def lex_char_def flush_num_def lex_flush_def Let_def)
  qed
qed

lemma lex_rel_run:
  "\<not> dminus xs \<Longrightarrow>
   lex_rel (foldl tokenize_char tokenize_init xs) (foldl lex_char \<lparr>stoks = [], pending = []\<rparr> xs)"
proof (induction xs rule: rev_induct)
  case Nil
  then show ?case by (simp add: lex_rel_def tokenize_init_def unary_pos_def)
next
  case (snoc c xs)
  from snoc.prems have nx: "\<not> dminus xs" and nl: "\<not> (xs \<noteq> [] \<and> last xs = CHR ''-'' \<and> c = CHR ''-'')"
    by (simp_all add: dminus_snoc)
  have "\<not> (num (foldl tokenize_char tokenize_init xs) = ''-'' \<and> c = CHR ''-'')"
    using num_minus_last [of xs] nl by blast
  from lex_rel_step [OF snoc.IH [OF nx] this] show ?case
    by simp
qed

text \<open>
  C17: on every input without two minus signs in a row, the code's tokenizer emits the
  texts of the tokens the specification's tokenizer emits.
\<close>

theorem tokenize_refines_spec:
  "\<not> dminus s \<Longrightarrow> tokenize s = map stok_text (spec_tokenize s)"
proof -
  assume "\<not> dminus s"
  from lex_rel_run [OF this] show ?thesis
    by (auto simp: lex_rel_def tokenize_def spec_tokenize_def flush_num_def lex_flush_def)
qed

lemma foldl_lex_numchars:
  "list_all numchar ds \<Longrightarrow> foldl lex_char ls ds = ls\<lparr>pending := pending ls @ ds\<rparr>"
  by (induction ds arbitrary: ls) (simp_all add: lex_char_def)

lemma tokenize_state_after:
  assumes c: "\<not> numchar c" "c \<noteq> CHR ''-''" "c \<noteq> CHR '')''"
  shows "num (foldl tokenize_char tokenize_init (u @ [c])) = [] \<and>
         lastCharWasOperator (foldl tokenize_char tokenize_init (u @ [c])) \<and>
         tokens (foldl tokenize_char tokenize_init (u @ [c])) = tokenize (u @ [c])"
  using c by (simp add: tokenize_char_def Let_def numchar_def tokenize_def flush_num_def)

lemma lex_state_after:
  assumes c: "\<not> numchar c" "c \<noteq> CHR ''-''" "c \<noteq> CHR '')''"
  shows "pending (foldl lex_char \<lparr>stoks = [], pending = []\<rparr> (u @ [c])) = [] \<and>
         unary_pos (stoks (foldl lex_char \<lparr>stoks = [], pending = []\<rparr> (u @ [c]))) \<and>
         stoks (foldl lex_char \<lparr>stoks = [], pending = []\<rparr> (u @ [c])) = spec_tokenize (u @ [c])"
  using c by (simp add: lex_char_def Let_def lex_flush_def spec_tokenize_def sclassify_def)

text \<open>
  C34: after an opening bracket or an operator character, a minus sign, a second minus
  sign and a number: the code flushes the first minus as a lexeme of its own without
  resetting \<^verbatim>\<open>lastCharWasOperator\<close>, so it folds the second minus into the number
  (\<open>-\<close>, \<open>-5\<close>), while the specification's tokenizer, having emitted a number token,
  reads the second minus as an operator (\<open>-\<close>, \<open>-\<close>, \<open>5\<close>); whatever precedes.
\<close>

theorem tokenize_double_minus:
  assumes c: "\<not> numchar c" "c \<noteq> CHR ''-''" "c \<noteq> CHR '')''"
    and ds: "list_all numchar ds" "ds \<noteq> []"
  shows "tokenize (u @ c # ''--'' @ ds) = tokenize (u @ [c]) @ [''-'', ''-'' @ ds] \<and>
         map stok_text (spec_tokenize (u @ c # ''--'' @ ds)) =
           map stok_text (spec_tokenize (u @ [c])) @ [''-'', ''-'', ds]"
proof
  let ?st = "foldl tokenize_char tokenize_init (u @ [c])"
  have e: "u @ c # ''--'' @ ds = (u @ [c]) @ ''--'' @ ds" by simp
  have st: "num ?st = []" "lastCharWasOperator ?st" "tokens ?st = tokenize (u @ [c])"
    using tokenize_state_after [OF c, of u] by blast+
  then have "foldl tokenize_char ?st ''--'' =
      ?st\<lparr>tokens := tokenize (u @ [c]) @ [''-''], num := ''-''\<rparr>"
    by (simp add: tokenize_char_def Let_def flush_num_def calc_simps)
  moreover have "foldl tokenize_char tokenize_init (u @ c # ''--'' @ ds) =
      foldl tokenize_char (foldl tokenize_char ?st ''--'') ds"
    unfolding e foldl_append [of tokenize_char tokenize_init "u @ [c]"] foldl_append [of tokenize_char ?st] ..
  ultimately show "tokenize (u @ c # ''--'' @ ds) = tokenize (u @ [c]) @ [''-'', ''-'' @ ds]"
    using ds by (simp add: tokenize_def foldl_numchars flush_num_def)
next
  let ?ls = "foldl lex_char \<lparr>stoks = [], pending = []\<rparr> (u @ [c])"
  have e: "u @ c # ''--'' @ ds = (u @ [c]) @ ''--'' @ ds" by simp
  have ls: "pending ?ls = []" "unary_pos (stoks ?ls)" "stoks ?ls = spec_tokenize (u @ [c])"
    using lex_state_after [OF c, of u] by blast+
  then have "foldl lex_char ?ls ''--'' =
      ?ls\<lparr>stoks := spec_tokenize (u @ [c]) @ [SNum ''-'', SOp CHR ''-''], pending := []\<rparr>"
    by (simp add: lex_char_def Let_def lex_flush_def calc_simps sclassify_def)
  moreover have "foldl lex_char \<lparr>stoks = [], pending = []\<rparr> (u @ c # ''--'' @ ds) =
      foldl lex_char (foldl lex_char ?ls ''--'') ds"
    unfolding e foldl_append [of lex_char "\<lparr>stoks = [], pending = []\<rparr>" "u @ [c]"] foldl_append [of lex_char ?ls] ..
  ultimately show "map stok_text (spec_tokenize (u @ c # ''--'' @ ds)) =
      map stok_text (spec_tokenize (u @ [c])) @ [''-'', ''-'', ds]"
    using ds by (simp add: spec_tokenize_def foldl_lex_numchars lex_flush_def)
qed

section \<open>Witnesses\<close>

theorem tokenize_refines_spec_witness:
  "\<not> dminus ''-5+(3-2)'' \<and> spec_tokenize ''-5+(3-2)'' =
     [SNum ''-5'', SOp CHR ''+'', SLParen, SNum ''3'', SOp CHR ''-'', SNum ''2'', SRParen] \<and>
   tokenize ''-5+(3-2)'' = [''-5'', ''+'', ''('', ''3'', ''-'', ''2'', '')'']"
  using tokenize_refines_spec [of "''-5+(3-2)''"] by (simp add: calc_eval)

theorem tokenize_double_minus_witness:
  "\<not> numchar CHR ''('' \<and> list_all numchar ''5'' \<and>
   tokenize ''(--5'' = [''('', ''-'', ''-5''] \<and> map stok_text (spec_tokenize ''(--5'') = [''('', ''-'', ''-'', ''5'']"
  using tokenize_double_minus [of "CHR ''(''" "''5''" "[]"] by (simp add: calc_eval)

end
