(* ===== verification/Calc_Format.thy ===== *)
theory Calc_Format
  imports Calc_Number
begin

text \<open>
  How \<^verbatim>\<open>std::cout << result\<close> (\<^verbatim>\<open>src/main.cpp\<close> line 185) writes a \<^verbatim>\<open>double\<close>: with the
  stream's default flags the library formats it as \<^verbatim>\<open>printf("%.6g")\<close> does. The value is
  rounded to six significant digits \<open>m\<close> (\<open>10^5 \<le> m < 10^6\<close>) with decimal exponent
  \<open>x\<close>; it is written in fixed notation when \<open>-4 \<le> x < 6\<close> and as
  \<open>d.ddddde\<plusminus>dd\<close> otherwise, trailing zeros of the fraction and a bare point left out.
  Ties are rounded to even, as \<^verbatim>\<open>printf\<close> does under the default rounding mode.
\<close>

text \<open>The number of decimal digits of a natural number.\<close>

fun nlen :: "nat \<Rightarrow> nat" where
  "nlen n = (if n = 0 then 0 else Suc (nlen (n div 10)))"

text \<open>The decimal exponent of a positive real: \<open>10^x \<le> a < 10^(x+1)\<close>.\<close>

definition dec_exp :: "real \<Rightarrow> int" where
  "dec_exp a = (if 1 \<le> a then int (nlen (nat \<lfloor>a\<rfloor>)) - 1 else - int (nlen (nat \<lceil>1 / a\<rceil> - 1)))"

definition round_even :: "real \<Rightarrow> int" where
  "round_even y = (let f = \<lfloor>y\<rfloor>; d = y - of_int f in
     if d < 1/2 then f else if 1/2 < d then f + 1 else if even f then f else f + 1)"

text \<open>Six significant digits and the exponent after rounding (a carry to \<open>10^6\<close> moves the exponent).\<close>

definition sig6 :: "real \<Rightarrow> nat \<times> int" where
  "sig6 a = (let x = dec_exp a; m = nat (round_even (a * 10 powi (5 - x))) in
     if m = 10 ^ 6 then (10 ^ 5, x + 1) else (m, x))"

fun zeros :: "nat \<Rightarrow> string" where
  "zeros n = (if n = 0 then [] else CHR ''0'' # zeros (n - 1))"

definition strip_zeros :: "string \<Rightarrow> string" where
  "strip_zeros s = rev (dropWhile (\<lambda>c. c = CHR ''0'') (rev s))"

definition point_part :: "string \<Rightarrow> string" where
  "point_part fs = (let f = strip_zeros fs in if f = [] then [] else CHR ''.'' # f)"

definition exp_digits :: "nat \<Rightarrow> string" where
  "exp_digits k = (if k < 10 then CHR ''0'' # nat_str k else nat_str k)"

definition fmt_g :: "real \<Rightarrow> string" where
  "fmt_g v =
     (if v = 0 then ''0''
      else
        let (m, x) = sig6 \<bar>v\<bar>; ds = nat_str m;
            body =
              (if -4 \<le> x \<and> x < 6 then
                 (if 0 \<le> x then take (nat x + 1) ds @ point_part (drop (nat x + 1) ds)
                  else ''0'' @ point_part (zeros (nat (- x) - 1) @ ds))
               else take 1 ds @ point_part (drop 1 ds) @ ''e'' @
                      (if x < 0 then ''-'' else ''+'') @ exp_digits (nat \<bar>x\<bar>))
        in (if v < 0 then ''-'' else []) @ body)"

declare nlen.simps [simp del] zeros.simps [simp del]

lemmas fmt_eval = fmt_g_def sig6_def dec_exp_def round_even_def Let_def nlen.simps nat_str.simps
  zeros.simps strip_zeros_def point_part_def exp_digits_def digit_char_def char_of_def bit_0

section \<open>Digits and exponents\<close>

lemma nlen_bounds: "0 < n \<Longrightarrow> 10 ^ (nlen n - 1) \<le> n \<and> n < 10 ^ nlen n"
proof (induction n rule: nlen.induct)
  case (1 n)
  show ?case
  proof (cases "n < 10")
    case True
    with "1.prems" show ?thesis by (simp add: nlen.simps [of n] nlen.simps [of 0])
  next
    case False
    then have "0 < n div 10" by simp
    with "1.IH" "1.prems" have ih: "10 ^ (nlen (n div 10) - 1) \<le> n div 10" "n div 10 < 10 ^ nlen (n div 10)"
      by simp_all
    have pos: "0 < nlen (n div 10)"
      using \<open>0 < n div 10\<close> by (simp add: nlen.simps [of "n div 10"])
    have eq: "nlen n = Suc (nlen (n div 10))"
      using "1.prems" by (simp add: nlen.simps [of n])
    have p: "(10::nat) ^ nlen (n div 10) = 10 * 10 ^ (nlen (n div 10) - 1)"
      using pos by (cases "nlen (n div 10)") simp_all
    from ih(1) have "10 * 10 ^ (nlen (n div 10) - 1) \<le> n"
      by linarith
    with p have lo: "10 ^ nlen (n div 10) \<le> n" by simp
    from ih(2) have "n < 10 * 10 ^ nlen (n div 10)"
      by linarith
    with lo eq show ?thesis
      by simp
  qed
qed


lemma nlen_pos: "0 < n \<Longrightarrow> 1 \<le> nlen n"
  by (simp add: nlen.simps [of n])

lemma nlen_bounds_real:
  "0 < n \<Longrightarrow> (10::real) ^ (nlen n - 1) \<le> real n \<and> real n + 1 \<le> 10 ^ nlen n"
proof -
  assume "0 < n"
  from nlen_bounds [OF this] have "10 ^ (nlen n - 1) \<le> n" "n + 1 \<le> 10 ^ nlen n"
    by simp_all
  then have "real (10 ^ (nlen n - 1)) \<le> real n" "real (n + 1) \<le> real (10 ^ nlen n)"
    by (simp_all only: of_nat_le_iff)
  then show ?thesis by simp
qed

lemma powi_nat_minus1: "1 \<le> L \<Longrightarrow> (10::real) powi (int L - 1) = 10 ^ (L - 1)"
  by (metis of_nat_diff of_nat_1 power_int_of_nat)

lemma powi_neg_nat: "(10::real) powi (- int L) = 1 / 10 ^ L"
  unfolding power_int_minus power_int_of_nat by (rule inverse_eq_divide)

lemma powi_neg_nat1: "1 \<le> L \<Longrightarrow> (10::real) powi (- int L + 1) = 1 / 10 ^ (L - 1)"
proof -
  assume "1 \<le> L"
  then have "- int L + 1 = - int (L - 1)" by simp
  then show ?thesis by (simp only: powi_neg_nat)
qed

lemma dec_exp_bounds: "0 < a \<Longrightarrow> 10 powi dec_exp a \<le> a \<and> a < 10 powi (dec_exp a + 1)"
proof (cases "1 \<le> a")
  case True
  let ?n = "nat \<lfloor>a\<rfloor>"
  have rn: "real ?n = of_int \<lfloor>a\<rfloor>" using True by simp
  then have fl: "real ?n \<le> a" "a < real ?n + 1"
    by linarith+
  have n: "0 < ?n" using True by simp
  let ?L = "nlen ?n"
  from nlen_bounds_real [OF n] have rb: "(10::real) ^ (?L - 1) \<le> real ?n" "real ?n + 1 \<le> 10 ^ ?L"
    by blast+
  have L: "1 \<le> ?L"
    using n by (rule nlen_pos)
  have d: "dec_exp a = int ?L - 1" using True by (simp add: dec_exp_def)
  have e1: "10 powi dec_exp a = (10::real) ^ (?L - 1)"
    using powi_nat_minus1 [OF L] d by simp
  have e2: "10 powi (dec_exp a + 1) = (10::real) ^ ?L"
    by (simp add: d power_int_of_nat)
  show ?thesis
    unfolding e1 e2 using rb fl by linarith
next
  case False
  assume a: "0 < a"
  let ?b = "1 / a"
  have b1: "1 < ?b" using False a by simp
  let ?c = "nat \<lceil>?b\<rceil> - 1"
  have g: "1 < \<lceil>?b\<rceil>" using b1 by (simp add: less_ceiling_iff)
  then have "?c = nat (\<lceil>?b\<rceil> - 1)" by (simp add: nat_diff_distrib)
  moreover have "0 \<le> \<lceil>?b\<rceil> - 1" using g by linarith
  then have "real (nat (\<lceil>?b\<rceil> - 1)) = of_int (\<lceil>?b\<rceil> - 1)" by (rule of_nat_nat)
  ultimately have rc: "real ?c = of_int \<lceil>?b\<rceil> - 1"
    by simp
  then have cl: "real ?c < ?b" "?b \<le> real ?c + 1"
    by linarith+
  have c: "0 < ?c" using b1 by linarith
  let ?L = "nlen ?c"
  from nlen_bounds_real [OF c] have rb: "(10::real) ^ (?L - 1) \<le> real ?c" "real ?c + 1 \<le> 10 ^ ?L"
    by blast+
  have L: "1 \<le> ?L"
    using c by (rule nlen_pos)
  have d: "dec_exp a = - int ?L" using False by (simp add: dec_exp_def)
  have m1: "1 \<le> a * (real ?c + 1)"
    using cl(2) a by (simp add: field_simps)
  have m2: "a * (real ?c + 1) \<le> a * 10 ^ ?L"
    using rb(2) a by (intro mult_left_mono) simp_all
  have "1 \<le> a * 10 ^ ?L" using m1 m2 by linarith
  then have lo: "1 / 10 ^ ?L \<le> a"
    by (simp add: field_simps)
  have m3: "a * real ?c < 1"
    using cl(1) a by (simp add: field_simps)
  have m4: "a * 10 ^ (?L - 1) \<le> a * real ?c"
    using rb(1) a by (intro mult_left_mono) simp_all
  have "a * 10 ^ (?L - 1) < 1" using m3 m4 by linarith
  then have hi: "a < 1 / 10 ^ (?L - 1)"
    by (simp add: field_simps)
  note e1 = powi_neg_nat [of ?L] and e2 = powi_neg_nat1 [OF L]
  show ?thesis
    unfolding d e1 e2 using lo hi by blast
qed


lemma round_even_bounds:
  "\<lfloor>y\<rfloor> \<le> round_even y \<and> round_even y \<le> \<lfloor>y\<rfloor> + 1 \<and> \<bar>of_int (round_even y) - y\<bar> \<le> 1 / 2"
proof -
  have d: "0 \<le> y - of_int \<lfloor>y\<rfloor>" "y - of_int \<lfloor>y\<rfloor> < 1"
    by linarith+
  then show ?thesis
    unfolding round_even_def Let_def by (simp add: abs_if split: if_splits; linarith)
qed

lemma powi_split: "(10::real) powi i * 10 powi j = 10 powi (i + j)"
  by (simp add: power_int_add)

section \<open>Six significant digits\<close>

text \<open>
  What \<open>sig6\<close> computes for a positive value: the value scaled to six integer digits and
  rounded, \<open>r\<close>, within half a unit of the scaled value, and the carry when \<open>r\<close> reaches
  \<open>10^6\<close>.
\<close>

lemma sig6_round:
  assumes a: "0 < a"
  obtains r where "10 ^ 5 \<le> r" "r \<le> 10 ^ 6"
    "\<bar>of_int r * 10 powi (dec_exp a - 5) - a\<bar> \<le> 10 powi (dec_exp a - 5) / 2"
    "sig6 a = (if nat r = 10 ^ 6 then (10 ^ 5, dec_exp a + 1) else (nat r, dec_exp a))"
proof -
  define x0 where "x0 = dec_exp a"
  define p where "p = (10::real) powi (5 - x0)"
  define q where "q = (10::real) powi (x0 - 5)"
  define y where "y = a * p"
  define r where "r = round_even y"
  have pq: "p * q = 1" unfolding p_def q_def by (simp add: powi_split)
  have p0: "0 < p" "0 < q" unfolding p_def q_def by simp_all
  from dec_exp_bounds [OF a] have ab: "10 powi x0 \<le> a" "a < 10 powi (x0 + 1)"
    unfolding x0_def by simp_all
  have "10 powi x0 * p = (10::real) ^ 5" "10 powi (x0 + 1) * p = (10::real) ^ 6"
    unfolding p_def by (simp_all add: powi_split)
  with ab p0 have yb: "10 ^ 5 \<le> y" "y < 10 ^ 6"
    unfolding y_def by (metis mult_right_mono less_imp_le, metis mult_strict_right_mono)
  from round_even_bounds [of y] have rb: "\<lfloor>y\<rfloor> \<le> r" "r \<le> \<lfloor>y\<rfloor> + 1" "\<bar>of_int r - y\<bar> \<le> 1 / 2"
    unfolding r_def by simp_all
  from yb have fb: "10 ^ 5 \<le> \<lfloor>y\<rfloor>" "\<lfloor>y\<rfloor> < 10 ^ 6"
    by (simp_all add: le_floor_iff floor_less_iff)
  with rb have r5: "10 ^ 5 \<le> r" "r \<le> 10 ^ 6" by linarith+
  have ay: "a = y * q" unfolding y_def using pq by (simp add: mult.assoc)
  have err: "\<bar>of_int r * q - a\<bar> \<le> q / 2"
  proof -
    have "\<bar>of_int r * q - a\<bar> = \<bar>of_int r - y\<bar> * q"
      using p0 by (simp add: ay abs_mult left_diff_distrib [symmetric])
    also have "\<dots> \<le> 1 / 2 * q" using rb(3) p0 by (intro mult_right_mono) simp_all
    finally show ?thesis by simp
  qed
  have sd: "sig6 a = (if nat r = 10 ^ 6 then (10 ^ 5, x0 + 1) else (nat r, x0))"
    by (simp add: sig6_def x0_def p_def y_def r_def Let_def)
  from r5 err sd show ?thesis
    unfolding q_def x0_def by (rule that)
qed

text \<open>
  C28: rounding to six significant digits gives a six-digit integer \<open>m\<close> and an exponent
  \<open>x\<close> with \<open>m \<cdot> 10^(x-5)\<close> within half a unit of the sixth digit of the value.
\<close>

theorem sig6_bounds:
  "0 < a \<Longrightarrow> sig6 a = (m, x) \<Longrightarrow>
   10 ^ 5 \<le> m \<and> m < 10 ^ 6 \<and> \<bar>real m * 10 powi (x - 5) - a\<bar> \<le> 10 powi (x - 5) / 2"
proof -
  assume a: "0 < a" and s: "sig6 a = (m, x)"
  obtain r where r5: "10 ^ 5 \<le> r" "r \<le> 10 ^ 6"
    and err: "\<bar>of_int r * 10 powi (dec_exp a - 5) - a\<bar> \<le> 10 powi (dec_exp a - 5) / 2"
    and sd: "sig6 a = (if nat r = 10 ^ 6 then (10 ^ 5, dec_exp a + 1) else (nat r, dec_exp a))"
    using sig6_round [OF a] by blast
  define q where "q = (10::real) powi (dec_exp a - 5)"
  have q0: "0 < q" unfolding q_def by simp
  have rn: "int (nat r) = r" using r5 by simp
  show ?thesis
  proof (cases "nat r = 10 ^ 6")
    case True
    with s sd have mx: "m = 10 ^ 5" "x = dec_exp a + 1" by simp_all
    from True rn have "r = 10 ^ 6" by simp
    moreover have "10 powi (dec_exp a + 1 - 5) = 10 * q"
    proof -
      have "(10::real) powi 1 * 10 powi (dec_exp a - 5) = 10 powi (1 + (dec_exp a - 5))" by (rule powi_split)
      moreover have "1 + (dec_exp a - 5) = dec_exp a + 1 - 5" by simp
      ultimately show ?thesis unfolding q_def by simp
    qed
    ultimately show ?thesis
      using err mx q0 unfolding q_def [symmetric] by (simp add: algebra_simps)
  next
    case False
    with s sd have mx: "m = nat r" "x = dec_exp a" by simp_all
    from mx r5 have "m \<le> 10 ^ 6" "10 ^ 5 \<le> m"
      by (simp_all add: nat_le_iff le_nat_iff)
    with False mx have "m < 10 ^ 6" "10 ^ 5 \<le> m" by simp_all
    moreover have "real m = of_int r" using mx rn by (metis of_int_of_nat_eq)
    ultimately show ?thesis
      using err mx by simp
  qed
qed


section \<open>Whole numbers are printed exactly\<close>

lemma digit_char_0: "digit_char 0 = CHR ''0''"
  by (simp add: digit_char_def char_of_def bit_0)

lemma zeros_replicate: "zeros k = replicate k CHR ''0''"
  by (induction k) (simp_all add: zeros.simps [of 0] zeros.simps [of "Suc _"])

lemma length_nat_str: "0 < n \<Longrightarrow> length (nat_str n) = nlen n"
proof (induction n rule: nat_str.induct)
  case (1 n)
  show ?case
  proof (cases "n < 10")
    case True
    with "1.prems" show ?thesis
      by (simp add: nat_str.simps [of n] nlen.simps [of n] nlen.simps [of 0])
  next
    case False
    with "1.IH" have "length (nat_str (n div 10)) = nlen (n div 10)" by simp
    with False "1.prems" show ?thesis
      by (simp add: nat_str.simps [of n] nlen.simps [of n])
  qed
qed

lemma nat_str_times10: "0 < n \<Longrightarrow> nat_str (n * 10) = nat_str n @ [digit_char 0]"
  by (subst nat_str.simps) simp

lemma nat_str_shift: "0 < n \<Longrightarrow> nat_str (n * 10 ^ k) = nat_str n @ zeros k"
proof (induction k)
  case 0
  then show ?case by (simp add: zeros.simps [of 0])
next
  case (Suc k)
  have "n * 10 ^ Suc k = (n * 10 ^ k) * 10" by simp
  moreover have "0 < n * 10 ^ k" using Suc.prems by simp
  ultimately have "nat_str (n * 10 ^ Suc k) = nat_str (n * 10 ^ k) @ [digit_char 0]"
    by (simp only: nat_str_times10)
  with Suc show ?case
    by (simp add: digit_char_0 zeros_replicate replicate_append_same)
qed

lemma point_part_zeros: "point_part (zeros k) = []"
  by (simp add: point_part_def strip_zeros_def zeros_replicate)

lemma round_even_nat: "round_even (real k) = int k"
  by (simp add: round_even_def)

lemma nlen_le: "n < 10 ^ k \<Longrightarrow> nlen n \<le> k"
proof (cases "n = 0")
  case True
  then show ?thesis by (simp add: nlen.simps)
next
  case False
  assume lt: "n < 10 ^ k"
  from nlen_bounds [of n] False have "10 ^ (nlen n - 1) \<le> n" by simp
  then have "10 ^ (nlen n - 1) < (10::nat) ^ k" using lt by (rule le_less_trans)
  then have "nlen n - 1 < k" by (rule power_less_imp_less_exp [rotated]) simp
  then show ?thesis using nlen_pos [of n] False by simp
qed

lemma powi_six_minus: "L \<le> 6 \<Longrightarrow> (10::real) powi (6 - int L) = 10 ^ (6 - L)"
proof -
  assume "L \<le> 6"
  then have "6 - int L = int (6 - L)" by simp
  then show ?thesis by (simp only: power_int_of_nat)
qed

lemma sig6_nat:
  assumes n: "0 < n" "n < 10 ^ 6"
  shows "sig6 (real n) = (n * 10 ^ (6 - nlen n), int (nlen n) - 1)"
proof -
  let ?L = "nlen n"
  from nlen_bounds [OF n(1)] have b: "n < 10 ^ ?L" by simp
  have L6: "?L \<le> 6" using n(2) by (rule nlen_le)
  have d: "dec_exp (real n) = int ?L - 1"
    using n(1) by (simp add: dec_exp_def)
  have s: "(5::int) - (int ?L - 1) = 6 - int ?L" by simp
  have r: "real n * 10 powi (5 - dec_exp (real n)) = real (n * 10 ^ (6 - ?L))"
    unfolding d s powi_six_minus [OF L6] by simp
  have "?L + (6 - ?L) = 6" using L6 by simp
  then have p: "10 ^ ?L * 10 ^ (6 - ?L) = (10::nat) ^ 6" by (simp only: power_add [symmetric])
  have "n * 10 ^ (6 - ?L) < 10 ^ ?L * 10 ^ (6 - ?L)" using b by simp
  then have "n * 10 ^ (6 - ?L) < 10 ^ 6" by (simp only: p)
  then have ne: "n * 10 ^ (6 - ?L) \<noteq> 10 ^ 6" by simp
  show ?thesis
    unfolding sig6_def Let_def r round_even_nat nat_int using ne d by simp
qed

text \<open>A whole number below a million is printed as its decimal numeral.\<close>

theorem fmt_g_nat: "n < 10 ^ 6 \<Longrightarrow> fmt_g (real n) = nat_str n"
proof (cases "n = 0")
  case True
  then show ?thesis by (simp add: fmt_g_def nat_str.simps [of 0] digit_char_0)
next
  case False
  assume lt: "n < 10 ^ 6"
  let ?L = "nlen n"
  have n: "0 < n" using False by simp
  have L1: "1 \<le> ?L" using n by (rule nlen_pos)
  have L6: "?L \<le> 6" using lt by (rule nlen_le)
  have ds: "nat_str (n * 10 ^ (6 - ?L)) = nat_str n @ zeros (6 - ?L)"
    using n by (rule nat_str_shift)
  have len: "length (nat_str n) = ?L" using n by (rule length_nat_str)
  have x: "nat (int ?L - 1) + 1 = ?L" using L1 by simp
  show ?thesis
    using sig6_nat [OF n lt] L1 L6 n
    by (simp add: fmt_g_def ds x len point_part_zeros)
qed

section \<open>The printed text is that of the rounded value\<close>

lemma sig6_range: "0 < a \<Longrightarrow> sig6 a = (m, x) \<Longrightarrow> 10 ^ 5 \<le> m \<and> m < 10 ^ 6"
proof -
  assume a: "0 < a" and s: "sig6 a = (m, x)"
  obtain r where r5: "10 ^ 5 \<le> r" "r \<le> 10 ^ 6"
    and sd: "sig6 a = (if nat r = 10 ^ 6 then (10 ^ 5, dec_exp a + 1) else (nat r, dec_exp a))"
    using sig6_round [OF a] by blast
  then show ?thesis
    using s by (auto simp: nat_le_iff le_nat_iff split: if_splits)
qed

lemma dec_exp_unique:
  assumes lo: "10 powi x \<le> a" and hi: "a < 10 powi (x + 1)"
  shows "dec_exp a = x"
proof -
  have "0 < (10::real) powi x" by simp
  with lo have a: "0 < a" by linarith
  from dec_exp_bounds [OF a] have d: "10 powi dec_exp a \<le> a" "a < 10 powi (dec_exp a + 1)"
    by simp_all
  have "\<not> x + 1 \<le> dec_exp a"
  proof
    assume "x + 1 \<le> dec_exp a"
    then have "(10::real) powi (x + 1) \<le> 10 powi dec_exp a" by (rule power_int_increasing) simp
    with d(1) hi show False by linarith
  qed
  moreover have "\<not> dec_exp a + 1 \<le> x"
  proof
    assume "dec_exp a + 1 \<le> x"
    then have "(10::real) powi (dec_exp a + 1) \<le> 10 powi x" by (rule power_int_increasing) simp
    with d(2) lo show False by linarith
  qed
  ultimately show ?thesis by linarith
qed

text \<open>Rounding a value that already has six significant digits gives it back.\<close>

lemma sig6_idem:
  assumes m: "10 ^ 5 \<le> m" "m < 10 ^ 6"
  shows "sig6 (real m * 10 powi (x - 5)) = (m, x)"
proof -
  let ?q = "(10::real) powi (x - 5)"
  have q0: "0 < ?q" by simp
  have e: "10 ^ 5 * ?q = 10 powi x" "10 ^ 6 * ?q = 10 powi (x + 1)"
    using powi_split [of 5 "x - 5"] powi_split [of 6 "x - 5"] by (simp_all add: add.commute)
  have "real (10 ^ 5) \<le> real m" "real m < real (10 ^ 6)"
    using m by (simp_all only: of_nat_le_iff of_nat_less_iff)
  then have "(10::real) ^ 5 \<le> real m" "real m < (10::real) ^ 6" by simp_all
  with q0 have "10 ^ 5 * ?q \<le> real m * ?q" "real m * ?q < 10 ^ 6 * ?q"
    by (simp_all add: mult_right_mono)
  with e have d: "dec_exp (real m * ?q) = x" by (intro dec_exp_unique) simp_all
  have r: "real m * ?q * 10 powi (5 - x) = real m"
    using powi_split [of "x - 5" "5 - x"] by (simp add: mult.assoc)
  have "m \<noteq> 10 ^ 6" using m(2) by simp
  then show ?thesis
    unfolding sig6_def Let_def d r round_even_nat nat_int by simp
qed

text \<open>
  C29: \<^verbatim>\<open>std::cout << result\<close> writes every non-zero value as it writes its rounding to
  six significant digits: the printed text names the rounded value, not the computed one,
  so results that agree in six digits print alike (\<open>1234567\<close> prints as \<open>1234570\<close> does,
  as \<open>1.23457e+06\<close>).
\<close>

theorem fmt_g_rounded:
  "v \<noteq> 0 \<Longrightarrow> sig6 \<bar>v\<bar> = (m, x) \<Longrightarrow> fmt_g v = fmt_g (sgn v * (real m * 10 powi (x - 5)))"
proof -
  assume v: "v \<noteq> 0" and s: "sig6 \<bar>v\<bar> = (m, x)"
  let ?r = "real m * 10 powi (x - 5)"
  have m: "10 ^ 5 \<le> m" "m < 10 ^ 6" using sig6_range [OF _ s] v by simp_all
  have "(0::nat) < 10 ^ 5" by simp
  with m(1) have m0: "0 < m" by linarith
  then have r0: "0 < ?r" by simp
  have "\<bar>sgn v * ?r\<bar> = ?r" using v m0 by (simp add: abs_mult)
  moreover have "sgn v * ?r \<noteq> 0" using v m0 by (simp add: sgn_if)
  moreover have "(sgn v * ?r < 0) = (v < 0)"
  proof (cases "v < 0")
    case True
    then have "sgn v * ?r = - ?r" by simp
    with True r0 show ?thesis by linarith
  next
    case False
    with v have "sgn v * ?r = ?r" by (simp add: sgn_if)
    with False r0 show ?thesis by linarith
  qed
  ultimately show ?thesis
    using v s sig6_idem [OF m, of x] by (simp add: fmt_g_def)
qed

section \<open>Witnesses\<close>

theorem sig6_bounds_witness:
  "0 < (1/3::real) \<and> sig6 (1/3) = (333333, -1) \<and>
   \<bar>real (333333::nat) * 10 powi (-1 - 5) - 1/3\<bar> \<le> 10 powi (-1 - 5) / 2"
proof -
  have s: "sig6 (1/3) = (333333, -1)" by (simp add: fmt_eval)
  from sig6_bounds [OF _ s] show ?thesis using s by simp
qed
theorem fmt_g_nat_witness: "(120::nat) < 10 ^ 6 \<and> fmt_g 120 = ''120''"
  using fmt_g_nat [of 120] by (simp add: nat_str.simps digit_char_def char_of_def bit_0)


theorem fmt_g_rounded_witness:
  "(1234567::real) \<noteq> 0 \<and> sig6 \<bar>1234567\<bar> = (123457, 6) \<and>
   fmt_g 1234567 = fmt_g 1234570 \<and> fmt_g 1234567 = ''1.23457e+06''"
proof -
  have s: "sig6 \<bar>1234567\<bar> = (123457, 6)" by (simp add: fmt_eval)
  from fmt_g_rounded [OF _ s] have "fmt_g 1234567 = fmt_g 1234570" by simp
  moreover have "fmt_g 1234567 = ''1.23457e+06''" by (simp add: fmt_eval)
  ultimately show ?thesis using s by simp
qed
end
