(* ===== verification/Spec2Isabelle.thy ===== *)
theory Spec2Isabelle
  imports Calc_Findings Calc_Safety Calc_Lexer_Spec Calc_Format
begin

text \<open>
  \<^bold>\<open>A verified model of the infix calculator \<^verbatim>\<open>src/main.cpp\<close>.\<close>

  The program reads one line, converts it from infix to postfix notation and evaluates
  the postfix text. Its parts, in the order of the source, and the theory that models each:

  \<^item> \<open>Calc_Prelude\<close>: the shared vocabulary: the \<open>error\<close> type of the exceptions and
    undefined stack accesses, results \<open>error + 'a\<close> with \<open>ebind\<close>, character classes
    (\<^verbatim>\<open>std::isdigit\<close>, the blanks \<^verbatim>\<open>operator>>\<close> skips), \<open>spaced\<close> (each token followed by
    a blank), and the collections \<open>calc_simps\<close> and \<open>calc_eval\<close> (definitions for evaluation).
  \<^item> \<open>Calc_Arith\<close>: \<^verbatim>\<open>precedence\<close> (lines 11--19) and \<^verbatim>\<open>applyOp\<close> (lines 22--34) with its
    division-by-zero throw and its default \<open>0\<close>.
  \<^item> \<open>Calc_Number\<close>: \<^verbatim>\<open>isNumber\<close> (lines 37--41) as the libstdc++ extraction of a
    \<^verbatim>\<open>double\<close> from an \<^verbatim>\<open>istringstream\<close> (\<open>num_get_double\<close>: blanks, sign, digits, one
    point, exponent, \<^verbatim>\<open>strtod\<close> on the scanned text, failbit on overflow) followed by the
    \<^verbatim>\<open>eof()\<close> test, and \<^verbatim>\<open>std::stod\<close> (line 163) as \<^verbatim>\<open>strtod\<close>'s own parse of the
    longest numeric prefix (\<open>strtod\<close>: decimal or hexadecimal), with its two exceptions.
  \<^item> \<open>Calc_Tokenizer\<close>: \<^verbatim>\<open>tokenize\<close> (lines 44--72), the per-character step
    \<open>tokenize_char\<close> on the record \<open>tok_state\<close> of its loop variables, folded over the input,
    and the final flush.
  \<^item> \<open>Calc_Validator\<close>: \<^verbatim>\<open>validateExpression\<close> (lines 75--112), the step \<open>validate_token\<close>
    on the record \<open>vstate\<close>, \<open>None\<close> for an early \<^verbatim>\<open>return false\<close>.
  \<^item> \<open>Calc_Converter\<close>: \<^verbatim>\<open>infixToPostfix\<close> (lines 115--153), the step \<open>convert_token\<close> on
    the record \<open>cstate\<close> (operator stack with its top at the head, output string); the
    three popping loops are \<open>pop_ops\<close>, and as \<^verbatim>\<open>while\<close> loops \<open>pop_loop\<close>.
  \<^item> \<open>Calc_Evaluator\<close>: \<^verbatim>\<open>evaluatePostfix\<close> (lines 156--173): \<open>words\<close> splits the text at
    blanks, \<open>eval_token\<close> is one iteration on the value stack; \<open>eval_stream\<close> is the
    \<^verbatim>\<open>while (tokens >> token)\<close> loop reading one word at a time.
  \<^item> \<open>Calc_Lexer_Spec\<close>: the tokenizer of the specification (section 4.1), with
    typed tokens, and the proof that the code's tokenizer refines it on inputs without
    two minus signs in a row.
  \<^item> \<open>Calc_Format\<close>: how \<^verbatim>\<open>std::cout << result\<close> (line 185) writes a \<^verbatim>\<open>double\<close>,
    the library's default \<^verbatim>\<open>%.6g\<close> formatting: \<open>sig6\<close> rounds to six significant digits
    (ties to even) with a decimal exponent, \<open>fmt_g\<close> writes fixed or exponent notation
    and drops trailing zeros.
  \<^item> \<open>Calc_Pipeline\<close>: \<open>calc\<close>, the \<^verbatim>\<open>try\<close> block of \<^verbatim>\<open>main\<close> (lines 181--188): convert,
    then evaluate.
  \<^item> \<open>Calc_Findings\<close>: no component, but the places where the code departs from the
    specification, each stated for every input of a shape (see below).
  \<^item> \<open>Calc_Safety\<close>: no component of the program, but the lockstep run of validator,
    converter and evaluator height on which the safety theorems rest.
  \<^item> this theory: \<open>main_run\<close>, the lines \<^verbatim>\<open>main\<close> writes (lines 176--191), with \<open>getline\<close> and the
    exception messages \<open>what\<close>; \<open>render\<close> gives each line its text and stream and
    \<open>main_output\<close> is the pair of texts written to \<^verbatim>\<open>std::cout\<close> and \<^verbatim>\<open>std::cerr\<close>.

  A \<^verbatim>\<open>throw\<close> is an \<open>Inl\<close> value (\<open>InvalidExpression\<close>, \<open>DivisionByZero\<close>, \<open>StodInvalid\<close>,
  \<open>StodOutOfRange\<close>); \<^verbatim>\<open>top()\<close> or \<^verbatim>\<open>pop()\<close> of an empty \<^verbatim>\<open>std::stack\<close>, undefined
  behaviour in C++, is the value \<open>EmptyStackAccess\<close>, so that a theorem can say it never
  happens.

  \<^bold>\<open>What is proved.\<close>
  \<^item> Functional correctness (\<open>Calc_Expr\<close>, this theory): an abstract specification,
    expression trees \<open>expr\<close> with their value \<open>aval\<close>, postfix form \<open>post\<close> and printed
    form \<open>tok_expr\<close> (brackets only where precedence and left grouping need them), and a
    refinement per stage: the tokenizer reads the printed form back, the validator
    accepts it, the shunting-yard loop produces \<open>post\<close> (loop invariant \<open>conv_ok\<close>), and
    the evaluator computes \<open>aval\<close>. \<open>calc_correct\<close> composes them.
  \<^item> Safety (\<open>Calc_Safety\<close>, \<open>calc_safe\<close>): on inputs whose operator tokens are the five
    operators, validator, converter and evaluator run in lockstep under the invariant
    \<open>safe_inv\<close> and no empty stack is ever read; the only errors left are the specified
    ones; \<open>main_run_defined\<close> lifts this to the lines \<^verbatim>\<open>main\<close> writes, and
    \<open>infixToPostfix_words\<close> says every postfix word is a number or an operator.
    \<open>convert_validated_safe\<close> is the converter's half.
  \<^item> Invariants and bounds of each loop: token shapes, the validator's reachable states
    (an inductive relation \<open>vreach\<close>, and their exact description
    \<open>validate_reachable_iff\<close>) and bracket depth bound (the \<^verbatim>\<open>int\<close> counter cannot overflow below \<open>2^31\<close> tokens),
    the value-stack height discipline.
  \<^item> Termination: the popping \<^verbatim>\<open>while\<close> loops stop (\<open>pop_loop_terminates\<close>); the
    lemmas \<open>pop_loop_eq\<close> and \<open>eval_stream_words\<close> show that the loops as written
    compute what the recursive definitions used in the proofs compute.
  \<^item> Two parsers agree: on every string \<^verbatim>\<open>isNumber\<close> accepts, \<^verbatim>\<open>std::stod\<close>'s
    \<^verbatim>\<open>strtod\<close> reads the whole string and the value the extraction read
    (\<open>isNumber_stod\<close>).
  \<^item> The validator against the specification's two-variable machine (\<open>validateExpression_refines\<close>).
  \<^item> The tokenizer against the specification's tokenizer (\<open>tokenize_refines_spec\<close>), and
    the specification's testable properties on brackets: every valid expression is
    accepted (\<open>valid_expression_accepted\<close>), unbalanced brackets and a \<open>)\<close> before its
    \<open>(\<close> are rejected (\<open>validate_unbalanced\<close>, \<open>validate_close_first\<close>).
  \<^item> Round trips: the tokens concatenate to the input (\<open>tokenize_concat\<close>), and the
    decimal numeral of a natural number is read back by \<^verbatim>\<open>isNumber\<close> and
    \<^verbatim>\<open>std::stod\<close> (\<open>stod_nat_str\<close>).
  \<^item> Output: \<open>sig6_bounds\<close> (six digits, within half a unit of the sixth digit),
    \<open>fmt_g_rounded\<close> (the text printed for a value is the text of its six-digit rounding);
    \<open>main_output_nat\<close> (the exact text written for a whole-number result below a
    million), \<open>main_output_error\<close> (an exception gives one line on \<^verbatim>\<open>std::cerr\<close>, after
    the postfix line when the evaluation threw, and no result line).
  \<^item> Findings (\<open>Calc_Findings\<close>, \<open>Calc_Lexer_Spec\<close>), each for every input of a shape,
    with the specification's own examples as witnesses: two operator characters in a row,
    a blank among them, are rejected (\<open>3 + 4\<close>); a character outside the five operators
    is an operator of precedence 0 that joins two expressions into 0, or into the right
    one for a blank (\<open>3a4\<close>, \<open>3 4\<close>), and between brackets makes the converter pop an
    empty stack (\<open>(3 4)\<close>); an operand after an operand in brackets is accepted and the
    last value returned (\<open>3(4)\<close>); a malformed number is an operator (\<open>(2)1.2.3(4)\<close> is
    1); after \<open>(\<close> or an operator, \<open>--N\<close> is tokenized \<open>-\<close>, \<open>-N\<close> by the code and
    \<open>-\<close>, \<open>-\<close>, \<open>N\<close> by the specification.

  \<^bold>\<open>Modelling choices.\<close> A \<^verbatim>\<open>double\<close> is an exact \<open>real\<close>: there is no rounding and there
  are no infinities or NaNs; where the C++ arithmetic would overflow to infinity or give
  NaN (a negative base to a fractional power) the model has a real value instead, so the
  theorems say nothing about those cases. \<^verbatim>\<open>std::pow\<close> is the integer power for
  integral exponents and \<open>powr\<close> otherwise. The overflow bound of the extraction is
  \<open>2^1024 - 2^970\<close> (the first value that rounds to infinity); \<^verbatim>\<open>stod\<close>'s underflow is
  read as "non-zero and below \<open>2^-1022\<close> in magnitude and not a multiple of \<open>2^-1074\<close>",
  tininess before rounding. \<^verbatim>\<open>strtod\<close>'s forms \<open>inf\<close>, \<open>infinity\<close> and \<open>nan\<close> denote no
  real and are read as no conversion; \<^verbatim>\<open>std::stod\<close> is only called on strings
  \<^verbatim>\<open>isNumber\<close> accepts, and the extraction rejects them. The bracket counter is an unbounded \<open>int\<close>, justified by the
  depth bound. All loops are structural recursions over the input or the stack, so no
  fuel is needed; the \<^verbatim>\<open>while\<close> versions are proved to stop.

  \<^bold>\<open>Not modelled.\<close> IEEE-754 rounding of the arithmetic and the texts the library
  writes for values a real cannot be (\<open>-0\<close>, \<open>inf\<close>, \<open>nan\<close>); the formatting of a
  result is that of its exact real value. The locale of the streams (the "C" locale is
  assumed), and the buffering and flushing of \<^verbatim>\<open>std::endl\<close>: the two streams are
  kept apart as texts, not interleaved. The specification puts the read/print wrapper
  outside its scope; the model follows the code.
\<close>

section \<open>What main writes\<close>

text \<open>
  \<^verbatim>\<open>main\<close> (lines 176--191) as the list of lines it writes: the prompt, then either the
  error printed by the \<^verbatim>\<open>catch\<close> (to \<^verbatim>\<open>std::cerr\<close>), or the postfix line followed by
  the result line or by the error of the evaluation. The number written after
  \<^verbatim>\<open>Result: \<close> is kept as the value here; \<open>render\<close> below writes its text. A run that reads
  or pops an empty \<^verbatim>\<open>std::stack\<close> has no defined behaviour: \<open>None\<close>.
  \<^verbatim>\<open>std::getline\<close> reads up to the first newline, which it consumes without storing;
  \<open>what\<close> is the message of each exception (\<^verbatim>\<open>std::stod\<close> throws with the text
  \<^verbatim>\<open>stod\<close>).
\<close>

datatype event = Prompt | PostfixLine string | ResultLine real | ErrorLine string

definition getline :: "string \<Rightarrow> string" where
  "getline input = takeWhile (\<lambda>c. c \<noteq> CHR 0x0A) input"

definition what :: "error \<Rightarrow> string" where
  "what e = (case e of
      InvalidExpression \<Rightarrow> ''Invalid expression''
    | DivisionByZero \<Rightarrow> ''Division by zero''
    | StodOutOfRange \<Rightarrow> ''stod''
    | StodInvalid \<Rightarrow> ''stod''
    | EmptyStackAccess \<Rightarrow> [])"

definition main_run :: "string \<Rightarrow> event list option" where
  "main_run input =
     (let expression = getline input in
      case infixToPostfix expression of
        Inl e \<Rightarrow> if e = EmptyStackAccess then None else Some [Prompt, ErrorLine (what e)]
      | Inr postfix_str \<Rightarrow>
          (case evaluatePostfix postfix_str of
             Inl e \<Rightarrow>
               if e = EmptyStackAccess then None
               else Some [Prompt, PostfixLine postfix_str, ErrorLine (what e)]
           | Inr result \<Rightarrow> Some [Prompt, PostfixLine postfix_str, ResultLine result]))"

declare getline_def [calc_eval] what_def [calc_eval] main_run_def [calc_eval]

text \<open>
  The text \<^verbatim>\<open>main\<close> writes for each line: the pair of what goes to \<^verbatim>\<open>std::cout\<close> and
  what goes to \<^verbatim>\<open>std::cerr\<close>. The prompt has no newline of its own; \<^verbatim>\<open>std::endl\<close>
  writes one; the result is written by \<open>fmt_g\<close>, the default formatting of a
  \<^verbatim>\<open>double\<close> (theory \<open>Calc_Format\<close>).
\<close>

fun render :: "event \<Rightarrow> string \<times> string" where
  "render Prompt = (''Input expression: '', [])"
| "render (PostfixLine p) = (''Postfix: '' @ p @ [CHR 0x0A], [])"
| "render (ResultLine v) = (''Result: '' @ fmt_g v @ [CHR 0x0A], [])"
| "render (ErrorLine m) = ([], ''Error: '' @ m @ [CHR 0x0A])"

definition main_output :: "string \<Rightarrow> (string \<times> string) option" where
  "main_output input =
     map_option (\<lambda>evs. (concat (map (fst \<circ> render) evs), concat (map (snd \<circ> render) evs)))
       (main_run input)"

declare main_output_def [calc_eval]

section \<open>End-to-end correctness\<close>

text \<open>
  C3: for every well-formed expression, \<^verbatim>\<open>infixToPostfix\<close> applied to its printed
  form (no blanks, brackets only where precedence and left grouping need them) returns
  the postfix form, each token followed by a blank.
\<close>

theorem infixToPostfix_tok_expr:
  "wf_expr e \<Longrightarrow> infixToPostfix (concat (tok_expr 0 e)) = Inr (spaced (post e))"
proof -
  assume wf: "wf_expr e"
  then have tk: "tokenize (concat (tok_expr 0 e)) = tok_expr 0 e"
    by (rule tokenize_tok_expr)
  from wf have val: "validateExpression (tok_expr 0 e)"
    by (rule validate_tok_expr)
  from convert_tok_expr [OF wf] obtain st where
    run: "convert_loop convert_init (tok_expr 0 e) = Inr st" and
    out: "postfix (pop_ops (\<lambda>_. True) st) = spaced (post e)"
    by blast
  show ?thesis
    using tk val run out by (simp add: infixToPostfix_def)
qed

text \<open>
  C1: the calculator computes the value of every well-formed expression from its
  printed form: \<^verbatim>\<open>evaluatePostfix (infixToPostfix s)\<close> is the value of the expression
  under the precedences of \<^verbatim>\<open>precedence\<close>, every operator grouping to the left, or the
  error (division by zero, \<^verbatim>\<open>stod\<close> out of range) that value has.
\<close>

theorem calc_correct: "wf_expr e \<Longrightarrow> calc (concat (tok_expr 0 e)) = aval e"
proof -
  assume wf: "wf_expr e"
  have "words (spaced (post e)) = post e"
    using post_printable [OF wf] by (rule words_spaced)
  then have ev: "evaluatePostfix (spaced (post e)) = ebind (aval e) (\<lambda>v. Inr v)"
    using eval_loop_post [OF wf, of "[]"] by (simp add: evaluatePostfix_def ebind_assoc)
  from convert_tok_expr [OF wf] obtain st where
    run: "convert_loop convert_init (tok_expr 0 e) = Inr st" and
    out: "postfix (pop_ops (\<lambda>_. True) st) = spaced (post e)"
    by blast
  have "infixToPostfix (concat (tok_expr 0 e)) = Inr (spaced (post e))"
    using tokenize_tok_expr [OF wf] validate_tok_expr [OF wf] run out
    by (simp add: infixToPostfix_def)
  with ev show ?thesis
    by (simp add: calc_def)
qed

text \<open>
  C14: the first testable property of the specification: the validator accepts the
  tokens of every valid expression, written with brackets where precedence and left
  grouping need them.
\<close>

theorem valid_expression_accepted:
  "wf_expr e \<Longrightarrow> validateExpression (tokenize (concat (tok_expr 0 e)))"
proof -
  assume wf: "wf_expr e"
  then have "tokenize (concat (tok_expr 0 e)) = tok_expr 0 e"
    by (rule tokenize_tok_expr)
  with validate_tok_expr [OF wf] show ?thesis
    by simp
qed

section \<open>No empty-stack access\<close>

text \<open>
  C2: on every input whose operator tokens are the five operators, the calculator never
  reads or pops an empty \<^verbatim>\<open>std::stack\<close>: it returns a value or one of the errors the
  specification names (invalid expression, division by zero, a number \<^verbatim>\<open>stod\<close>
  cannot hold).
\<close>

theorem calc_safe:
  "op_tokens_ok (tokenize s) \<Longrightarrow> calc s = Inl e \<Longrightarrow>
   e = InvalidExpression \<or> e = DivisionByZero \<or> e = StodOutOfRange"
proof -
  assume ok: "op_tokens_ok (tokenize s)" and err: "calc s = Inl e"
  from infixToPostfix_safe [OF ok] show ?thesis
  proof (elim disjE exE conjE)
    assume "infixToPostfix s = Inl InvalidExpression"
    with err show ?thesis by (simp add: calc_def)
  next
    fix W h
    assume "infixToPostfix s = Inr (spaced W)" "out_ok W" "height_run 0 W = Some h" "1 \<le> h"
    with err evaluatePostfix_safe [of W h e] show ?thesis
      by (simp add: calc_def)
  qed
qed

section \<open>What main prints\<close>

lemma getline_first_line:
  "CHR 0x0A \<notin> set l \<Longrightarrow> getline (l @ CHR 0x0A # rest) = l"
  by (induction l) (auto simp: getline_def)

text \<open>
  C8: on every input line whose operator tokens are the five operators, \<^verbatim>\<open>main\<close> has a
  defined behaviour: after the prompt it writes the result of the calculation, or the
  message of one of the specified errors, as its last line.
\<close>

theorem main_run_defined:
  "op_tokens_ok (tokenize (getline input)) \<Longrightarrow>
   \<exists>evs. main_run input = Some evs \<and> hd evs = Prompt \<and>
     ((\<exists>v. last evs = ResultLine v \<and> calc (getline input) = Inr v) \<or>
      (\<exists>e. last evs = ErrorLine (what e) \<and> calc (getline input) = Inl e \<and>
           e \<in> {InvalidExpression, DivisionByZero, StodOutOfRange}))"
proof -
  assume ok: "op_tokens_ok (tokenize (getline input))"
  let ?x = "getline input"
  from infixToPostfix_safe [OF ok] show ?thesis
  proof (elim disjE exE conjE)
    assume "infixToPostfix ?x = Inl InvalidExpression"
    then show ?thesis by (simp add: main_run_def calc_def)
  next
    fix W h
    assume p: "infixToPostfix ?x = Inr (spaced W)" and W: "out_ok W" "height_run 0 W = Some h" "1 \<le> h"
    show ?thesis
    proof (cases "evaluatePostfix (spaced W)")
      case (Inl e)
      with evaluatePostfix_safe [OF W Inl] p show ?thesis
        by (auto simp: main_run_def calc_def)
    next
      case (Inr v)
      with p show ?thesis
        by (simp add: main_run_def calc_def)
    qed
  qed
qed

text \<open>
  C9: \<^verbatim>\<open>main\<close> reads one line: whatever follows the first newline has no effect.
\<close>

theorem main_run_first_line:
  "CHR 0x0A \<notin> set l \<Longrightarrow> main_run (l @ CHR 0x0A # rest) = main_run l"
proof -
  assume nl: "CHR 0x0A \<notin> set l"
  then have "getline l = l"
    by (auto simp: getline_def)
  with getline_first_line [OF nl] show ?thesis
    by (simp add: main_run_def)
qed

lemma main_run_result:
  "infixToPostfix (getline input) = Inr p \<Longrightarrow> evaluatePostfix p = Inr v \<Longrightarrow>
   main_run input = Some [Prompt, PostfixLine p, ResultLine v]"
  by (simp add: main_run_def)

lemma main_output_events:
  "main_run input = Some evs \<Longrightarrow>
   main_output input = Some (concat (map (fst \<circ> render) evs), concat (map (snd \<circ> render) evs))"
  by (simp add: main_output_def)

text \<open>
  C11: when the expression converts to the postfix text \<open>p\<close> and evaluates to a whole
  number below a million, \<^verbatim>\<open>main\<close> writes exactly the prompt, the postfix line and that
  number as its decimal numeral, and nothing to \<^verbatim>\<open>std::cerr\<close>.
\<close>

theorem main_output_nat:
  "infixToPostfix (getline input) = Inr p \<Longrightarrow> evaluatePostfix p = Inr (real n) \<Longrightarrow> n < 10 ^ 6 \<Longrightarrow>
   main_output input =
     Some (''Input expression: Postfix: '' @ p @ [CHR 0x0A] @ ''Result: '' @ nat_str n @ [CHR 0x0A], [])"
  by (drule (1) main_run_result, drule main_output_events) (simp add: fmt_g_nat)

text \<open>
  C12: when the calculation fails with one of its exceptions, \<^verbatim>\<open>main\<close> writes the
  message to \<^verbatim>\<open>std::cerr\<close> as one line \<open>Error: \<dots>\<close>; to \<^verbatim>\<open>std::cout\<close> it writes the prompt
  alone when the conversion threw, and the prompt and the postfix line when the
  evaluation threw (the postfix line is written before the evaluation starts); never a
  result line.
\<close>

theorem main_output_error:
  "calc (getline input) = Inl e \<Longrightarrow> e \<noteq> EmptyStackAccess \<Longrightarrow>
   main_output input =
     Some (case infixToPostfix (getline input) of
             Inl _ \<Rightarrow> ''Input expression: ''
           | Inr p \<Rightarrow> ''Input expression: Postfix: '' @ p @ [CHR 0x0A],
           ''Error: '' @ what e @ [CHR 0x0A])"
  by (auto simp: calc_def main_run_def main_output_def split: sum.splits)

section \<open>Witnesses\<close>

theorem valid_expression_accepted_witness:
  "wf_expr (Bin CHR ''*'' (Bin CHR ''+'' (Lit ''3'') (Lit ''4'')) (Lit ''2'')) \<and>
   concat (tok_expr 0 (Bin CHR ''*'' (Bin CHR ''+'' (Lit ''3'') (Lit ''4'')) (Lit ''2''))) = ''(3+4)*2'' \<and>
   validateExpression (tokenize ''(3+4)*2'')"
  using valid_expression_accepted [of "Bin CHR ''*'' (Bin CHR ''+'' (Lit ''3'') (Lit ''4'')) (Lit ''2'')"]
  by (simp add: calc_eval)

theorem main_run_defined_witness:
  "op_tokens_ok (tokenize (getline ''2*3'')) \<and>
   main_run ''2*3'' = Some [Prompt, PostfixLine ''2 3 * '', ResultLine 6]"
  using main_run_defined [of "''2*3''"] by (simp add: calc_eval op_tokens_ok_def)

theorem main_run_first_line_witness:
  "CHR 0x0A \<notin> set ''1+1'' \<and> main_run (''1+1'' @ CHR 0x0A # ''junk'') = Some [Prompt, PostfixLine ''1 1 + '', ResultLine 2]"
  using main_run_first_line [of "''1+1''" "''junk''"] by (simp add: calc_eval)

theorem calc_safe_witness:
  "op_tokens_ok (tokenize ''1/(2-2)'') \<and> calc ''1/(2-2)'' = Inl DivisionByZero"
  using calc_safe [of "''1/(2-2)''" DivisionByZero] by (simp add: calc_eval op_tokens_ok_def)

theorem infixToPostfix_tok_expr_witness:
  "wf_expr (Bin CHR ''-'' (Bin CHR ''-'' (Lit ''8'') (Lit ''3'')) (Lit ''2'')) \<and>
   infixToPostfix ''8-3-2'' = Inr ''8 3 - 2 - ''"
  using infixToPostfix_tok_expr [of "Bin CHR ''-'' (Bin CHR ''-'' (Lit ''8'') (Lit ''3'')) (Lit ''2'')"]
  by (simp add: calc_eval)

theorem calc_correct_witness:
  "wf_expr (Bin CHR ''*'' (Bin CHR ''+'' (Lit ''3'') (Lit ''4'')) (Lit ''2'')) \<and>
   calc ''(3+4)*2'' = Inr 14"
  using calc_correct [of "Bin CHR ''*'' (Bin CHR ''+'' (Lit ''3'') (Lit ''4'')) (Lit ''2'')"]
  by (simp add: calc_eval)

theorem main_output_nat_witness:
  "infixToPostfix (getline ''(3+4)*2'') = Inr ''3 4 + 2 * '' \<and>
   evaluatePostfix ''3 4 + 2 * '' = Inr (real (14::nat)) \<and> (14::nat) < 10 ^ 6 \<and>
   main_output ''(3+4)*2'' =
     Some (''Input expression: Postfix: 3 4 + 2 * '' @ [CHR 0x0A] @ ''Result: 14'' @ [CHR 0x0A], [])"
  using main_output_nat [of "''(3+4)*2''" "''3 4 + 2 * ''" 14]
  by (simp add: calc_eval nat_str.simps digit_char_def char_of_def bit_0)

theorem main_output_error_witness:
  "calc (getline ''5/0'') = Inl DivisionByZero \<and> DivisionByZero \<noteq> EmptyStackAccess \<and>
   main_output ''5/0'' =
     Some (''Input expression: Postfix: 5 0 / '' @ [CHR 0x0A], ''Error: Division by zero'' @ [CHR 0x0A])"
  using main_output_error [of "''5/0''" DivisionByZero] by (simp add: calc_eval)

end
